theory Spec2Isabelle
  imports Main "HOL-Library.Word" "HOL-Library.AList"
begin

section \<open>The bridge state of bridge.go\<close>

text \<open>
  Pointers are natural numbers. A native pointer (\<open>unsafe.Pointer\<close>) is its address, with
  \<open>nilPtr = 0\<close>. A Go pointer to a fold or to an engine is an index into the arena of
  folds or of engines; a nilable Go pointer is an \<open>option\<close>. Go never frees a fold that
  is still referenced, so the arenas only grow.
\<close>

type_synonym cptr = nat
type_synonym fref = nat
type_synonym eref = nat
type_synonym tref = nat

definition nilPtr :: cptr where
  "nilPtr = 0"

text \<open>
  What \<open>reflect\<close> reports about a managed value (an \<open>interface{}\<close>): its kind
  (\<open>Kind()\<close>), the kind of what it points to (\<open>Elem().Kind()\<close>, which is \<open>Invalid\<close> for a
  nil pointer, as \<open>Elem()\<close> of a nil pointer is the zero Value), the kind of the element
  type of its type (\<open>Type().Elem().Kind()\<close>, which is \<open>Ptr\<close> for a value of a type
  \<open>**T\<close>, nil or not), the name of its type, and whether \<open>value == value\<close> is defined
  (the repository's \<open>hashable\<close>). \<open>gv_ident\<close> is the value's identity: the address for a
  pointer. The nil interface has kind \<open>Invalid\<close>.
\<close>

datatype kind = Invalid | Struct | Ptr | Slice | Other

record gvalue =
  gv_ident :: nat
  gv_kind :: kind
  gv_elem_kind :: kind
  gv_type_elem_kind :: kind
  gv_type_name :: string
  gv_hashable :: bool

type_synonym valueOwner = "8 word"

definition cppOwner :: valueOwner where
  "cppOwner = 1"

definition jsOwner :: valueOwner where
  "jsOwner = 2"

record valueFold =
  engine :: "eref option"
  gvalue :: gvalue
  cvalue :: cptr
  init :: "nat option"
  prev :: "fref option"
  next_fold :: "fref option"
  owner :: valueOwner

text \<open>
  Modelled from the spec: the declaration of \<open>Engine\<close> is not in bridge.go. The spec gives
  it a native address handle, a mapping from managed-value identity to the head of the
  alias chain, and a destroyed flag; bridge.go reads them as \<open>engine.addr\<close>,
  \<open>engine.values\<close> and \<open>engine.destroyed\<close>. A Go map is an association list: \<open>len\<close> is
  its length, and the order of the list is the order in which \<open>range\<close> visits it, which
  Go leaves open.
\<close>

record Engine =
  addr :: cptr
  values_map :: "(gvalue \<times> fref) list"
  destroyed :: bool

text \<open>The calls that leave the bridge: into the native library, and into host callbacks.\<close>

datatype ccall =
    NewGoValue fref gvalue cptr cptr
  | EngineSetContextForObject cptr cptr
  | EngineSetOwnershipCPP cptr cptr
  | EngineSetOwnershipJS cptr cptr
  | GoValueActivate cptr gvalue "32 word"
  | InitCall nat gvalue eref cptr
  | IdleTimerStart
  | ApplicationFlushAll

record state =
  engines :: "(cptr \<times> eref) list"
  engine_heap :: "Engine list"
  fold_heap :: "valueFold list"
  typeNew :: "fref list"
  guiLock :: "64 word"
  guiLoopRef :: tref
  guiPaintRef :: tref
  hookWaiting :: "32 word"
  valuesAlive :: int
  calls :: "ccall list"

datatype panic_value = Panic string | RuntimeError string | ValueError string

datatype 'a outcome = Return 'a state | Panicked panic_value state

section \<open>wrapGoValue\<close>

text \<open>
  \<open>wrapGoValue tid h engine gvalue owner\<close>: \<open>tid\<close> is what \<open>tref.Ref()\<close> returns on the
  calling thread and \<open>h\<close> is the handle that \<open>C.newGoValue\<close> returns if it is called.
  Indexing a map with a key that is not hashable is a run-time panic in Go.
\<close>

definition wrapGoValue ::
  "tref \<Rightarrow> cptr \<Rightarrow> eref \<Rightarrow> gvalue \<Rightarrow> valueOwner \<Rightarrow> state \<Rightarrow> cptr outcome" where
  "wrapGoValue tid h e v own st =
    (if gv_kind v = Struct \<and> \<not> gv_hashable v then
       Panicked (Panic (''cannot hand an unhashable struct value''
           @ (if gv_type_name v \<noteq> [] then '' ('' @ gv_type_name v @ '')'' else [])
           @ '' to QML logic; use its address instead'')) st
     else if gv_kind v = Ptr \<and> gv_elem_kind v = Ptr then
       Panicked (Panic ''cannot hand pointer of pointer to QML logic; use a simple pointer instead'') st
     else
       let painting = (tid = guiPaintRef st) in
       if \<not> e < length (engine_heap st) then
         Panicked (RuntimeError ''invalid memory address or nil pointer dereference'') st
       else if \<not> gv_hashable v then
         Panicked (RuntimeError ''hash of unhashable type'') st
       else
         let eng = engine_heap st ! e;
             prev = map_of (values_map eng) v
         in
         if (case prev of None \<Rightarrow> False | Some p \<Rightarrow> \<not> p < length (fold_heap st)) then
           Panicked (RuntimeError ''invalid memory address or nil pointer dereference'') st
         else if (case prev of None \<Rightarrow> False
                  | Some p \<Rightarrow> owner (fold_heap st ! p) = own \<or> own \<noteq> cppOwner \<or> painting) then
           Return (cvalue (fold_heap st ! the prev)) st
         else if painting then
           Panicked (Panic ''cannot allocate new objects while painting'') st
         else
           let parent = (if own = cppOwner then addr eng else nilPtr);
               fa = length (fold_heap st);
               fold = \<lparr>engine = Some e, gvalue = v, cvalue = h, init = None,
                        prev = prev, next_fold = None, owner = own\<rparr>;
               heap1 = fold_heap st @ [fold];
               heap2 = (case prev of
                          Some p \<Rightarrow> heap1[p := (heap1 ! p)\<lparr>next_fold := Some fa\<rparr>]
                        | None \<Rightarrow> heap1);
               engs = (case prev of
                         Some p \<Rightarrow> engine_heap st
                       | None \<Rightarrow> (engine_heap st)
                           [e := eng\<lparr>values_map := AList.update v fa (values_map eng)\<rparr>])
           in Return h
                (st\<lparr>fold_heap := heap2, engine_heap := engs,
                    valuesAlive := valuesAlive st + 1,
                    calls := calls st
                      @ [NewGoValue fa v parent h, EngineSetContextForObject (addr eng) h]
                      @ (if own = cppOwner then [EngineSetOwnershipCPP (addr eng) h]
                         else if own = jsOwner then [EngineSetOwnershipJS (addr eng) h]
                         else [])\<rparr>))"

section \<open>The dispatcher: gui, Lock, Unlock and the idle hook\<close>

text \<open>
  A closure handed to \<open>gui\<close> is a function of the thread that runs it (what \<open>tref.Ref()\<close>
  returns inside it) and of the state; it returns, panics, or does not return (\<open>None\<close>).
  \<open>gui\<close> runs it inline, on the calling thread, when the caller is the event-loop thread
  or the painting thread. Otherwise it counts itself in \<open>hookWaiting\<close>, arms the idle
  timer on the step from 0 to 1, and sends the closure on \<open>guiFunc\<close>; the sequential
  reading of that rendezvous is one round of the idle hook's loop on the closure
  (\<open>hook_round\<close>): the hook, which runs in the event-loop thread, runs the closure, signals
  \<open>guiDone\<close> and counts \<open>hookWaiting\<close> down, and \<open>gui\<close> returns on that signal. A panic in
  the closure ends the program. \<open>guiLock\<close> is a Go \<open>int\<close>, taken at 64 bits.
\<close>

type_synonym closure = "tref \<Rightarrow> state \<Rightarrow> unit outcome option"

definition hook_round :: "closure \<Rightarrow> state \<Rightarrow> unit outcome option" where
  "hook_round f st =
    (case f (guiLoopRef st) st of
       None \<Rightarrow> None
     | Some (Panicked p s) \<Rightarrow> Some (Panicked p s)
     | Some (Return u s) \<Rightarrow> Some (Return () (s\<lparr>hookWaiting := hookWaiting s - 1\<rparr>)))"

definition gui :: "tref \<Rightarrow> closure \<Rightarrow> state \<Rightarrow> unit outcome option" where
  "gui ref f st =
    (if ref = guiLoopRef st \<or> ref = guiPaintRef st then f ref st
     else
       let hw = hookWaiting st + 1;
           st1 = st\<lparr>hookWaiting := hw,
                    calls := calls st @ (if hw = 1 then [IdleTimerStart] else [])\<rparr>
       in hook_round f st1)"

definition lock_body :: closure where
  "lock_body t st = Some (Return () (st\<lparr>guiLock := guiLock st + 1\<rparr>))"

definition unlock_body :: closure where
  "unlock_body t st =
    (if guiLock st = 0 then
       Some (Panicked (Panic ''qml.Unlock called without lock being held'') st)
     else Some (Return () (st\<lparr>guiLock := guiLock st - 1\<rparr>)))"

definition Lock :: "tref \<Rightarrow> state \<Rightarrow> unit outcome option" where
  "Lock ref st = gui ref lock_body st"

definition Unlock :: "tref \<Rightarrow> state \<Rightarrow> unit outcome option" where
  "Unlock ref st = gui ref unlock_body st"

text \<open>
  \<open>hookIdleTimer fs\<close>: one call of the idle hook, with \<open>fs\<close> the closures that senders
  offer on \<open>guiFunc\<close> during the call, in order. When none is left the hook returns to
  the native loop if \<open>guiLock\<close> is not positive; otherwise it stays in the blocking
  receive and the native loop does not run (\<open>HookBlocks\<close>). A closure that does not
  return keeps the hook from returning as well (\<open>HookBlocks\<close> in the state it began in).
\<close>

datatype hook_result = HookReturns state | HookBlocks state | HookPanics panic_value state

fun hookIdleTimer :: "closure list \<Rightarrow> state \<Rightarrow> hook_result" where
  "hookIdleTimer [] st =
    (if word_sless 0 (guiLock st) then HookBlocks st else HookReturns st)"
| "hookIdleTimer (f # fs) st =
    (case hook_round f st of
       None \<Rightarrow> HookBlocks st
     | Some (Panicked p s) \<Rightarrow> HookPanics p s
     | Some (Return u s) \<Rightarrow> hookIdleTimer fs s)"

section \<open>Field writes: convertAndSet\<close>

text \<open>
  The types and values that \<open>reflect\<close> shows to convertAndSet. \<open>TNamed n u\<close> is a declared
  type with underlying type \<open>u\<close>; \<open>listType\<close> is the type of \<open>&List{}\<close>. A
  \<open>reflect.Value\<close> is the zero Value (\<open>VInvalid\<close>, what \<open>reflect.ValueOf(nil)\<close> gives), a
  \<open>*List\<close> with its \<open>data\<close> (\<open>None\<close> for a nil pointer), a slice of some type with its
  elements, or any other value, of which only the type matters here.
\<close>

datatype rtype = TBase string | TPtr rtype | TSlice rtype | TNamed string rtype

fun rkind :: "rtype \<Rightarrow> kind" where
  "rkind (TBase n) = Other"
| "rkind (TPtr t) = Ptr"
| "rkind (TSlice t) = Slice"
| "rkind (TNamed n u) = rkind u"

fun relem :: "rtype \<Rightarrow> rtype" where
  "relem (TSlice t) = t"
| "relem (TPtr t) = t"
| "relem (TNamed n u) = relem u"
| "relem (TBase n) = TBase n"

fun type_string :: "rtype \<Rightarrow> string" where
  "type_string (TBase n) = n"
| "type_string (TPtr t) = ''*'' @ type_string t"
| "type_string (TSlice t) = ''[]'' @ type_string t"
| "type_string (TNamed n u) = n"

definition listType :: rtype where
  "listType = TPtr (TNamed ''qml.List'' (TBase ''struct''))"

datatype rvalue =
    VInvalid
  | VOther rtype nat
  | VListPtr "rvalue list option"
  | VSliceV rtype "rvalue list"

fun type_of :: "rvalue \<Rightarrow> rtype option" where
  "type_of VInvalid = None"
| "type_of (VOther t n) = Some t"
| "type_of (VListPtr d) = Some listType"
| "type_of (VSliceV t xs) = Some t"

text \<open>
  The target of the write: the field (\<open>to\<close>, the zero Value when the property has no
  field) and the setter method (\<open>setMethod\<close>, the zero Value when there is none). The
  body of a setter is host code: it returns (\<open>None\<close>) or panics with a value. A value a
  panic carries is never nil here: \<open>recover()\<close> returns nil only when nothing panics.
\<close>

record field =
  fld_type :: rtype
  fld_settable :: bool

record setter =
  set_params :: "rtype list"
  set_body :: "rvalue \<Rightarrow> panic_value option"

datatype effect = FieldSet rvalue | SetterCalled rvalue

text \<open>
  \<open>reflect.Value.Convert\<close> is the library's: the model takes it as the parameter \<open>conv\<close>,
  with \<open>None\<close> where Convert panics. On the zero Value it always panics.
\<close>

type_synonym converter = "rtype \<Rightarrow> rvalue \<Rightarrow> rvalue option"

definition convert1 :: "converter \<Rightarrow> rtype \<Rightarrow> rvalue \<Rightarrow> panic_value + rvalue" where
  "convert1 conv t x =
    (if x = VInvalid then Inl (ValueError ''reflect: call of reflect.Value.Convert on zero Value'')
     else case conv t x of
            None \<Rightarrow> Inl (Panic ''reflect.Value.Convert: value cannot be converted'')
          | Some y \<Rightarrow> Inr y)"

text \<open>The loop over \<open>list.data\<close>: it stops at the first element that does not convert.\<close>

fun convert_elems :: "converter \<Rightarrow> rtype \<Rightarrow> rvalue list \<Rightarrow> panic_value + rvalue list" where
  "convert_elems conv t [] = Inr []"
| "convert_elems conv t (x # xs) =
    (case convert1 conv t x of
       Inl p \<Rightarrow> Inl p
     | Inr y \<Rightarrow> (case convert_elems conv t xs of Inl p \<Rightarrow> Inl p | Inr ys \<Rightarrow> Inr (y # ys)))"

text \<open>Lines 412 to 416: the target type, or the panic of \<open>In(0)\<close> or of \<open>to.Type()\<close>.\<close>

definition target_type :: "field option \<Rightarrow> setter option \<Rightarrow> panic_value + rtype" where
  "target_type to setMethod =
    (case setMethod of
       Some s \<Rightarrow> (case set_params s of
                    [] \<Rightarrow> Inl (Panic ''reflect: Func index out of bounds'')
                  | t # ts \<Rightarrow> Inr t)
     | None \<Rightarrow> (case to of
                  None \<Rightarrow> Inl (ValueError ''reflect: call of reflect.Value.Type on zero Value'')
                | Some f \<Rightarrow> Inr (fld_type f)))"

text \<open>Lines 433 to 437: the call of the setter, or the assignment to the field.\<close>

definition assign :: "field option \<Rightarrow> setter option \<Rightarrow> rvalue \<Rightarrow> panic_value + effect" where
  "assign to setMethod y =
    (case setMethod of
       Some s \<Rightarrow>
         (if length (set_params s) \<noteq> 1 then
            Inl (Panic ''reflect: Call with too many input arguments'')
          else case set_body s y of
                 Some p \<Rightarrow> Inl p
               | None \<Rightarrow> Inr (SetterCalled y))
     | None \<Rightarrow>
         (case to of
            None \<Rightarrow> Inl (ValueError ''reflect: call of reflect.Value.Set on zero Value'')
          | Some f \<Rightarrow>
              if fld_settable f then Inr (FieldSet y)
              else Inl (Panic ''reflect: reflect.Value.Set using unaddressable value'')))"

text \<open>Lines 423 to 437, the part of convertAndSet that runs under the deferred recover.\<close>

definition convert_body ::
  "converter \<Rightarrow> field option \<Rightarrow> rvalue \<Rightarrow> setter option \<Rightarrow> rtype \<Rightarrow> rtype
     \<Rightarrow> panic_value + effect" where
  "convert_body conv to from setMethod fromType toType =
    (if fromType = listType \<and> rkind toType = Slice then
       (case from of
          VListPtr (Some data) \<Rightarrow>
            (case convert_elems conv (relem toType) data of
               Inl p \<Rightarrow> Inl p
             | Inr ys \<Rightarrow> assign to setMethod (VSliceV toType ys))
        | _ \<Rightarrow> Inl (RuntimeError ''invalid memory address or nil pointer dereference''))
     else if toType \<noteq> fromType then
       (case convert1 conv toType from of
          Inl p \<Rightarrow> Inl p
        | Inr y \<Rightarrow> assign to setMethod y)
     else assign to setMethod from)"

definition convertAndSet ::
  "converter \<Rightarrow> field option \<Rightarrow> rvalue \<Rightarrow> setter option \<Rightarrow> panic_value + effect" where
  "convertAndSet conv to from setMethod =
    (case target_type to setMethod of
       Inl p \<Rightarrow> Inl p
     | Inr toType \<Rightarrow>
         (case type_of from of
            None \<Rightarrow> Inl (ValueError ''reflect: call of reflect.Value.Type on zero Value'')
          | Some fromType \<Rightarrow>
              (case convert_body conv to from setMethod fromType toType of
                 Inl v \<Rightarrow> Inl (Panic (''cannot use '' @ type_string fromType
                                         @ '' as a '' @ type_string toType))
               | Inr done \<Rightarrow> Inr done)))"

section \<open>Folds of registered types: hookGoValueTypeNew and ensureEngine\<close>

text \<open>
  Modelled from the spec: the declaration of \<open>TypeSpec\<close> is not in bridge.go, which reads
  its \<open>Init\<close> field only: the deferred initializer, a function whose first parameter type
  gives the type of the managed value. \<open>spec_init\<close> names the function and \<open>spec_in\<close> lists
  its parameter types.
\<close>

record TypeSpec =
  spec_init :: nat
  spec_in :: "rtype list"

text \<open>
  \<open>hookGoValueTypeNew a cvalue spec\<close>: \<open>a\<close> is the address of the value that \<open>reflect.New\<close>
  allocates. The managed value is a pointer to it. \<open>typeNew\<close> is a map from fold pointers to
  \<open>true\<close>: the list of its keys.
\<close>

definition hookGoValueTypeNew :: "nat \<Rightarrow> cptr \<Rightarrow> TypeSpec \<Rightarrow> state \<Rightarrow> fref outcome" where
  "hookGoValueTypeNew a cv spec st =
    (case spec_in spec of
       [] \<Rightarrow> Panicked (Panic ''reflect: Func index out of bounds'') st
     | t # ts \<Rightarrow>
         if rkind t = Other then Panicked (Panic ''reflect: Elem of invalid type'') st
         else
           let fold = \<lparr>engine = None,
                        gvalue = \<lparr>gv_ident = a, gv_kind = Ptr, gv_elem_kind = rkind (relem t),
                                   gv_type_elem_kind = rkind (relem t),
                                   gv_type_name = [], gv_hashable = True\<rparr>,
                        cvalue = cv, init = Some (spec_init spec),
                        prev = None, next_fold = None, owner = jsOwner\<rparr>;
               fa = length (fold_heap st)
           in Return fa
                (st\<lparr>fold_heap := fold_heap st @ [fold],
                    typeNew := List.insert fa (typeNew st),
                    valuesAlive := valuesAlive st + 1\<rparr>))"

text \<open>
  The loop \<open>for prev.next != nil { prev = prev.next }\<close> of ensureEngine. It does not end
  on a chain that runs into a cycle: then the value is \<open>None\<close>.
\<close>

partial_function (option) last_fold :: "valueFold list \<Rightarrow> fref \<Rightarrow> (panic_value + fref) option" where
  "last_fold h p =
    (if \<not> p < length h then
       Some (Inl (RuntimeError ''invalid memory address or nil pointer dereference''))
     else case next_fold (h ! p) of
            None \<Rightarrow> Some (Inr p)
          | Some n \<Rightarrow> last_fold h n)"

text \<open>Lines 536 to 546 of ensureEngine: the fold gets its engine and is linked in.\<close>

definition link_fold :: "eref \<Rightarrow> fref \<Rightarrow> state \<Rightarrow> (panic_value \<times> state + state) option" where
  "link_fold e foldp st =
    (let h1 = (fold_heap st)[foldp := (fold_heap st ! foldp)\<lparr>engine := Some e\<rparr>];
         st1 = st\<lparr>fold_heap := h1\<rparr>;
         v = gvalue (h1 ! foldp)
     in
     if \<not> e < length (engine_heap st) then
       Some (Inl (RuntimeError ''invalid memory address or nil pointer dereference'', st1))
     else if \<not> gv_hashable v then
       Some (Inl (RuntimeError ''hash of unhashable type'', st1))
     else
       let eng = engine_heap st ! e in
       case map_of (values_map eng) v of
         Some r \<Rightarrow>
           (case last_fold h1 r of
              None \<Rightarrow> None
            | Some (Inl p) \<Rightarrow> Some (Inl (p, st1))
            | Some (Inr t) \<Rightarrow>
                let h2 = h1[t := (h1 ! t)\<lparr>next_fold := Some foldp\<rparr>];
                    h3 = h2[foldp := (h2 ! foldp)\<lparr>prev := Some t\<rparr>]
                in Some (Inr (st1\<lparr>fold_heap := h3\<rparr>)))
       | None \<Rightarrow>
           Some (Inr (st1\<lparr>engine_heap := (engine_heap st)
               [e := eng\<lparr>values_map := AList.update v foldp (values_map eng)\<rparr>]\<rparr>)))"

definition ensureEngine :: "cptr \<Rightarrow> fref \<Rightarrow> state \<Rightarrow> fref outcome option" where
  "ensureEngine enginep foldp st =
    (if \<not> foldp < length (fold_heap st) then
       Some (Panicked (RuntimeError ''invalid memory address or nil pointer dereference'') st)
     else if engine (fold_heap st ! foldp) \<noteq> None then Some (Return foldp st)
     else if enginep = nilPtr then
       Some (Panicked (Panic
         ''accessing value without an engine pointer; who created the value?'') st)
     else
       case map_of (engines st) enginep of
         None \<Rightarrow> Some (Panicked (Panic ''unknown engine pointer; who created the engine?'') st)
       | Some e \<Rightarrow>
           (case link_fold e foldp st of
              None \<Rightarrow> None
            | Some (Inl (p, s)) \<Rightarrow> Some (Panicked p s)
            | Some (Inr st2) \<Rightarrow>
                if length (removeAll foldp (typeNew st2)) = length (typeNew st2) then
                  Some (Panicked (Panic
                    ''value had no engine, but was not created by a registered type; who created the value?'')
                    st2)
                else
                  let st3 = st2\<lparr>typeNew := removeAll foldp (typeNew st2)\<rparr>;
                      fold = fold_heap st3 ! foldp
                  in
                  case init fold of
                    None \<Rightarrow> Some (Panicked
                      (ValueError ''reflect: call of reflect.Value.Call on zero Value'') st3)
                  | Some i \<Rightarrow>
                      Some (Return foldp
                        (st3\<lparr>calls := calls st3
                            @ [InitCall i (gvalue fold) e (cvalue fold)]\<rparr>))))"

section \<open>hookGoValueDestroyed\<close>

text \<open>\<open>fmt_p\<close> is what the verb \<open>%p\<close> prints for a pointer: \<open>0x\<close> and the address in hex.\<close>

definition hex_char :: "nat \<Rightarrow> char" where
  "hex_char n = ''0123456789abcdef'' ! n"

fun hex_digits :: "nat \<Rightarrow> string" where
  "hex_digits n =
    (if n < 16 then [hex_char n] else hex_digits (n div 16) @ [hex_char (n mod 16)])"

definition fmt_p :: "cptr \<Rightarrow> string" where
  "fmt_p a = ''0x'' @ hex_digits a"

definition hookGoValueDestroyed :: "cptr \<Rightarrow> fref \<Rightarrow> state \<Rightarrow> unit outcome" where
  "hookGoValueDestroyed enginep foldp st =
    (if \<not> foldp < length (fold_heap st) then
       Panicked (RuntimeError ''invalid memory address or nil pointer dereference'') st
     else
       let h = fold_heap st; fold = h ! foldp in
       case engine fold of
         None \<Rightarrow>
           if length (removeAll foldp (typeNew st)) = length (typeNew st) then
             Panicked (Panic
               ''destroying value without an associated engine; who created the value?'') st
           else Return () (st\<lparr>typeNew := removeAll foldp (typeNew st),
                               valuesAlive := valuesAlive st - 1\<rparr>)
       | Some e \<Rightarrow>
           if \<not> e < length (engine_heap st) then
             Panicked (RuntimeError ''invalid memory address or nil pointer dereference'') st
           else
             let eng = engine_heap st ! e in
             if map_of (engines st) (addr eng) = None then
               Panicked (Panic (''engine '' @ fmt_p (addr eng)
                 @ '' was released from global list while its values were still alive'')) st
             else
               case prev fold of
                 Some p \<Rightarrow>
                   if \<not> p < length h then
                     Panicked (RuntimeError
                       ''invalid memory address or nil pointer dereference'') st
                   else
                     let h1 = h[p := (h ! p)\<lparr>next_fold := next_fold fold\<rparr>] in
                     (case next_fold (h1 ! foldp) of
                        None \<Rightarrow>
                          Return () (st\<lparr>fold_heap := h1, valuesAlive := valuesAlive st - 1\<rparr>)
                      | Some n \<Rightarrow>
                          if \<not> n < length h1 then
                            Panicked (RuntimeError
                              ''invalid memory address or nil pointer dereference'')
                              (st\<lparr>fold_heap := h1\<rparr>)
                          else
                            Return ()
                              (st\<lparr>fold_heap := h1[n := (h1 ! n)\<lparr>prev := prev (h1 ! foldp)\<rparr>],
                                  valuesAlive := valuesAlive st - 1\<rparr>))
               | None \<Rightarrow>
                   (case next_fold fold of
                      Some n \<Rightarrow>
                        if \<not> n < length h then
                          Panicked (RuntimeError
                            ''invalid memory address or nil pointer dereference'') st
                        else
                          let h1 = h[n := (h ! n)\<lparr>prev := prev fold\<rparr>] in
                          if \<not> gv_hashable (gvalue (h1 ! foldp)) then
                            Panicked (RuntimeError ''hash of unhashable type'')
                              (st\<lparr>fold_heap := h1\<rparr>)
                          else
                            Return ()
                              (st\<lparr>fold_heap := h1,
                                  engine_heap := (engine_heap st)
                                    [e := eng\<lparr>values_map :=
                                       AList.update (gvalue (h1 ! foldp)) n (values_map eng)\<rparr>],
                                  valuesAlive := valuesAlive st - 1\<rparr>)
                    | None \<Rightarrow>
                        if \<not> gv_hashable (gvalue fold) then
                          Panicked (RuntimeError ''hash of unhashable type'') st
                        else
                          let vals = AList.delete (gvalue fold) (values_map eng);
                              st1 = st\<lparr>engine_heap :=
                                         (engine_heap st)[e := eng\<lparr>values_map := vals\<rparr>]\<rparr>
                          in
                          if length vals = length (values_map eng) then
                            Panicked (Panic
                              ''destroying value that knows about the engine, but the engine doesn't know about the value; who cleared the engine?'')
                              st1
                          else
                            Return ()
                              (st1\<lparr>engines :=
                                     (if destroyed eng \<and> length vals = 0
                                      then AList.delete (addr eng) (engines st)
                                      else engines st),
                                   valuesAlive := valuesAlive st - 1\<rparr>)))"

section \<open>Sequences of registry operations\<close>

datatype op =
    Wrap tref cptr eref gvalue valueOwner
  | TypeNew nat cptr TypeSpec
  | Resolve cptr fref
  | Destroy cptr fref

text \<open>The state after an operation that returns; \<open>None\<close> when it panics or does not return.\<close>

fun apply_op :: "op \<Rightarrow> state \<Rightarrow> state option" where
  "apply_op (Wrap tid h e v own) st =
    (case wrapGoValue tid h e v own st of Return c s \<Rightarrow> Some s | Panicked p s \<Rightarrow> None)"
| "apply_op (TypeNew a cv spec) st =
    (case hookGoValueTypeNew a cv spec st of Return f s \<Rightarrow> Some s | Panicked p s \<Rightarrow> None)"
| "apply_op (Resolve enginep foldp) st =
    (case ensureEngine enginep foldp st of
       Some (Return f s) \<Rightarrow> Some s
     | _ \<Rightarrow> None)"
| "apply_op (Destroy enginep foldp) st =
    (case hookGoValueDestroyed enginep foldp st of
       Return u s \<Rightarrow> Some s
     | Panicked p s \<Rightarrow> None)"

fun run :: "op list \<Rightarrow> state \<Rightarrow> state option" where
  "run [] st = Some st"
| "run (x # xs) st = (case apply_op x st of None \<Rightarrow> None | Some s \<Rightarrow> run xs s)"

text \<open>
  Walking a chain: \<open>chain h pr x xs\<close> holds when the folds \<open>xs\<close> are what following
  \<open>next\<close> from \<open>x\<close> visits, up to nil, each with \<open>prev\<close> pointing to the one before it
  and the first with \<open>prev = pr\<close>.
\<close>

fun chain :: "valueFold list \<Rightarrow> fref option \<Rightarrow> fref option \<Rightarrow> fref list \<Rightarrow> bool" where
  "chain h pr x [] = (x = None)"
| "chain h pr x (a # as) =
    (x = Some a \<and> a < length h \<and> prev (h ! a) = pr \<and> chain h (Some a) (next_fold (h ! a)) as)"


section \<open>Changed\<close>

text \<open>
  The two arguments of Changed as \<open>reflect\<close> sees them: a nil pointer or nil interface
  (\<open>MNil\<close>), a pointer that is not nil with what it points to, or a value that is not a
  pointer, with its address when it is addressable (what \<open>UnsafeAddr\<close> returns) and with
  the size of its type: \<open>uintptr\<close>, 64 bits. \<open>deref_ptrs\<close> is the loop
  \<open>for v.Kind() == reflect.Ptr { v = v.Elem() }\<close>, which ends at the zero Value or at a
  value that is not a pointer: for the address of a field of pointer type it runs on to
  what the field points to.
\<close>

datatype mval = MNil | MPtr mval | MObj "64 word option" "64 word"

datatype reflected = RZero | RValue "64 word option" "64 word"

fun deref_ptrs :: "mval \<Rightarrow> reflected" where
  "deref_ptrs MNil = RZero"
| "deref_ptrs (MPtr x) = deref_ptrs x"
| "deref_ptrs (MObj a sz) = RValue a sz"

text \<open>The offset goes to the native side as a C int, 32 bits.\<close>

definition activate :: "valueFold list \<Rightarrow> gvalue \<Rightarrow> 32 word \<Rightarrow> fref \<Rightarrow> ccall" where
  "activate h v off p = GoValueActivate (cvalue (h ! p)) v off"

text \<open>
  The walk over one engine's chain, with the signals emitted so far in \<open>acc\<close>. On a
  chain that runs into a cycle it does not end.
\<close>

partial_function (option) activate_chain ::
  "valueFold list \<Rightarrow> gvalue \<Rightarrow> 32 word \<Rightarrow> fref option \<Rightarrow> ccall list
     \<Rightarrow> (panic_value option \<times> ccall list) option" where
  "activate_chain h v off x acc =
    (case x of
       None \<Rightarrow> Some (None, acc)
     | Some p \<Rightarrow>
         if \<not> p < length h then
           Some (Some (RuntimeError ''invalid memory address or nil pointer dereference''), acc)
         else activate_chain h v off (next_fold (h ! p)) (acc @ [activate h v off p]))"

text \<open>
  The loop over \<open>typeNew\<close>, over its keys in the order \<open>ps\<close> of this pass: the signal of a
  pending fold of this value is deferred, and \<open>dfr\<close> lists the deferred signals in the
  order of their \<open>defer\<close> statements.
\<close>

fun pending_defers ::
  "valueFold list \<Rightarrow> gvalue \<Rightarrow> 32 word \<Rightarrow> fref list \<Rightarrow> ccall list
     \<Rightarrow> panic_value option \<times> ccall list" where
  "pending_defers h v off [] dfr = (None, dfr)"
| "pending_defers h v off (p # ps) dfr =
    (if \<not> p < length h then
       (Some (RuntimeError ''invalid memory address or nil pointer dereference''), dfr)
     else pending_defers h v off ps
            (if gvalue (h ! p) = v then dfr @ [activate h v off p] else dfr))"

text \<open>
  The loop over \<open>engines\<close>, in the order of the list. Every pass ranges over \<open>typeNew\<close>
  anew, and Go may visit the keys of a map in another order each time: \<open>ord k\<close> is the
  order in which pass \<open>k\<close> visits them, a parameter of the model that is meant to list the
  keys of \<open>typeNew\<close>.
\<close>

fun changed_loop ::
  "Engine list \<Rightarrow> valueFold list \<Rightarrow> (nat \<Rightarrow> fref list) \<Rightarrow> gvalue \<Rightarrow> 32 word \<Rightarrow> nat
     \<Rightarrow> (cptr \<times> eref) list \<Rightarrow> ccall list \<Rightarrow> ccall list
     \<Rightarrow> (panic_value option \<times> ccall list \<times> ccall list) option" where
  "changed_loop es h ord v off k [] acc dfr = Some (None, acc, dfr)"
| "changed_loop es h ord v off k (ae # rest) acc dfr =
    (if \<not> snd ae < length es then
       Some (Some (RuntimeError ''invalid memory address or nil pointer dereference''), acc, dfr)
     else if \<not> gv_hashable v then
       Some (Some (RuntimeError ''hash of unhashable type''), acc, dfr)
     else
       case activate_chain h v off (map_of (values_map (es ! snd ae)) v) acc of
         None \<Rightarrow> None
       | Some (Some p, acc') \<Rightarrow> Some (Some p, acc', dfr)
       | Some (None, acc') \<Rightarrow>
           (case pending_defers h v off (ord k) dfr of
              (Some p, dfr') \<Rightarrow> Some (Some p, acc', dfr')
            | (None, dfr') \<Rightarrow> changed_loop es h ord v off (Suc k) rest acc' dfr'))"

text \<open>
  The closure that Changed hands to \<open>gui\<close>. The deferred calls run when it ends, by
  return or by panic, last deferred first.
\<close>

definition changed_body :: "(nat \<Rightarrow> fref list) \<Rightarrow> gvalue \<Rightarrow> 32 word \<Rightarrow> closure" where
  "changed_body ord v off t st =
    (case changed_loop (engine_heap st) (fold_heap st) ord v off 0 (engines st) [] [] of
       None \<Rightarrow> None
     | Some (err, imm, dfr) \<Rightarrow>
         let st' = st\<lparr>calls := calls st @ imm @ rev dfr\<rparr> in
         Some (case err of None \<Rightarrow> Return () st' | Some p \<Rightarrow> Panicked p st'))"

text \<open>
  \<open>Changed tid ord v value fieldAddr\<close>: \<open>v\<close> is the first argument as the key of the value
  maps, \<open>value\<close> and \<open>fieldAddr\<close> are the two arguments as \<open>reflect\<close> sees them.
\<close>

definition Changed ::
  "tref \<Rightarrow> (nat \<Rightarrow> fref list) \<Rightarrow> gvalue \<Rightarrow> mval \<Rightarrow> mval \<Rightarrow> state \<Rightarrow> unit outcome option" where
  "Changed tid ord v value fieldAddr st =
    (let valuev = deref_ptrs value; fieldv = deref_ptrs fieldAddr in
     case fieldv of
       RZero \<Rightarrow> Some (Panicked
         (ValueError ''reflect: call of reflect.Value.Type on zero Value'') st)
     | RValue fa fs \<Rightarrow>
         if fs = 0 then
           Some (Panicked (Panic ''cannot report changes on zero-sized fields'') st)
         else
           case fa of
             None \<Rightarrow> Some (Panicked
               (Panic ''reflect.Value.UnsafeAddr of unaddressable value'') st)
           | Some faddr \<Rightarrow>
               (case valuev of
                  RZero \<Rightarrow> Some (Panicked
                    (ValueError ''reflect: call of reflect.Value.UnsafeAddr on zero Value'') st)
                | RValue va vs \<Rightarrow>
                    (case va of
                       None \<Rightarrow> Some (Panicked
                         (Panic ''reflect.Value.UnsafeAddr of unaddressable value'') st)
                     | Some vaddr \<Rightarrow>
                         let offset = faddr - vaddr in
                         if \<not> (0 \<le> offset \<and> offset < vs) then
                           Some (Panicked (Panic
                             ''provided field is not a member of the given value'') st)
                         else gui tid (changed_body ord v (ucast offset)) st)))"

section \<open>Well-formed registries\<close>

text \<open>
  The vocabulary of the invariants. \<open>chains_ok\<close>: every registered engine exists, the keys
  of an engine's value map are distinct, and every entry of it is the root of a chain whose
  folds all carry this engine and this value. \<open>pending_ok\<close>: a fold in \<open>typeNew\<close> has no
  engine and no links, has an initializer, and wraps a hashable value, as
  hookGoValueTypeNew creates it. \<open>on_chain st e v f\<close>: the walk from the root that engine
  \<open>e\<close> holds for \<open>v\<close> visits \<open>f\<close>. \<open>concerns f\<close>: the operation resolves or destroys
  \<open>f\<close>. \<open>link_after h e f t\<close> is the heap after lines 536, 542 and 543 of ensureEngine.
\<close>

definition chains_ok :: "state \<Rightarrow> bool" where
  "chains_ok st \<longleftrightarrow>
     (\<forall>ae\<in>set (engines st). snd ae < length (engine_heap st))
   \<and> (\<forall>e<length (engine_heap st).
        distinct (map fst (values_map (engine_heap st ! e)))
        \<and> (\<forall>vr\<in>set (values_map (engine_heap st ! e)).
             \<exists>xs. chain (fold_heap st) None (Some (snd vr)) xs
               \<and> (\<forall>a\<in>set xs. engine (fold_heap st ! a) = Some e
                              \<and> gvalue (fold_heap st ! a) = fst vr)))"

definition pending_ok :: "state \<Rightarrow> bool" where
  "pending_ok st \<longleftrightarrow>
     (\<forall>p\<in>set (typeNew st).
        p < length (fold_heap st)
        \<and> engine (fold_heap st ! p) = None
        \<and> prev (fold_heap st ! p) = None
        \<and> next_fold (fold_heap st ! p) = None
        \<and> init (fold_heap st ! p) \<noteq> None
        \<and> gv_hashable (gvalue (fold_heap st ! p)))"

definition registry_ok :: "state \<Rightarrow> bool" where
  "registry_ok st \<longleftrightarrow> chains_ok st \<and> pending_ok st"

definition on_chain :: "state \<Rightarrow> eref \<Rightarrow> gvalue \<Rightarrow> fref \<Rightarrow> bool" where
  "on_chain st e v f \<longleftrightarrow>
     e < length (engine_heap st)
   \<and> (\<exists>r xs. map_of (values_map (engine_heap st ! e)) v = Some r
         \<and> chain (fold_heap st) None (Some r) xs \<and> f \<in> set xs)"

fun concerns :: "fref \<Rightarrow> op \<Rightarrow> bool" where
  "concerns f (Resolve enginep g) = (g = f)"
| "concerns f (Destroy enginep g) = (g = f)"
| "concerns f (Wrap tid h e v own) = False"
| "concerns f (TypeNew a cv spec) = False"

definition link_after :: "valueFold list \<Rightarrow> eref \<Rightarrow> fref \<Rightarrow> fref \<Rightarrow> valueFold list" where
  "link_after h e f t =
    (let h1 = h[f := (h ! f)\<lparr>engine := Some e\<rparr>];
         h2 = h1[t := (h1 ! t)\<lparr>next_fold := Some f\<rparr>]
     in h2[f := (h2 ! f)\<lparr>prev := Some t\<rparr>])"

section \<open>Example states\<close>

definition ex_ptr :: gvalue where
  "ex_ptr = \<lparr>gv_ident = 7, gv_kind = Ptr, gv_elem_kind = Struct,
             gv_type_elem_kind = Struct, gv_type_name = [], gv_hashable = True\<rparr>"




definition ex_empty :: state where
  "ex_empty = \<lparr>engines = [(100, 0)],
      engine_heap = [\<lparr>addr = 100, values_map = [], destroyed = False\<rparr>],
      fold_heap = [], typeNew = [], guiLock = 0, guiLoopRef = 1, guiPaintRef = 0,
      hookWaiting = 0, valuesAlive = 0, calls = []\<rparr>"

definition ex_js :: state where
  "ex_js = \<lparr>engines = [(100, 0)],
      engine_heap = [\<lparr>addr = 100, values_map = [(ex_ptr, 0)], destroyed = False\<rparr>],
      fold_heap = [\<lparr>engine = Some 0, gvalue = ex_ptr, cvalue = 400, init = None,
                    prev = None, next_fold = None, owner = jsOwner\<rparr>],
      typeNew = [], guiLock = 0, guiLoopRef = 1, guiPaintRef = 0,
      hookWaiting = 0, valuesAlive = 1, calls = []\<rparr>"

definition ex_conv :: converter where
  "ex_conv t x =
    (case x of
       VOther u n \<Rightarrow>
         if u = t then Some x
         else if (u = TBase ''int'' \<or> u = TBase ''float64'')
                 \<and> (t = TBase ''int'' \<or> t = TBase ''float64'') then Some (VOther t n)
         else None
     | _ \<Rightarrow> None)"

definition ex_floats :: field where
  "ex_floats = \<lparr>fld_type = TSlice (TBase ''float64''), fld_settable = True\<rparr>"

definition ex_count :: field where
  "ex_count = \<lparr>fld_type = TBase ''int'', fld_settable = True\<rparr>"

definition ex_setter :: setter where
  "ex_setter = \<lparr>set_params = [TBase ''int''],
                 set_body = (\<lambda>x. if x = VOther (TBase ''int'') 0 then Some (Panic ''zero'') else None)\<rparr>"


definition ex_wraps :: "op list" where
  "ex_wraps = [Wrap 1 400 0 ex_ptr jsOwner, Wrap 1 401 0 ex_ptr cppOwner,
               Wrap 1 402 0 ex_ptr cppOwner]"

definition ex_dropped :: state where
  "ex_dropped = \<lparr>engines = [(100, 0)],
      engine_heap = [\<lparr>addr = 100, values_map = [(ex_ptr, 0)], destroyed = False\<rparr>],
      fold_heap =
        [\<lparr>engine = Some 0, gvalue = ex_ptr, cvalue = 400, init = None,
          prev = None, next_fold = Some 2, owner = jsOwner\<rparr>,
         \<lparr>engine = Some 0, gvalue = ex_ptr, cvalue = 401, init = None,
          prev = Some 0, next_fold = None, owner = cppOwner\<rparr>,
         \<lparr>engine = Some 0, gvalue = ex_ptr, cvalue = 402, init = None,
          prev = Some 0, next_fold = None, owner = cppOwner\<rparr>],
      typeNew = [], guiLock = 0, guiLoopRef = 1, guiPaintRef = 0,
      hookWaiting = 0, valuesAlive = 3,
      calls = [NewGoValue 0 ex_ptr 0 400, EngineSetContextForObject 100 400,
               EngineSetOwnershipJS 100 400,
               NewGoValue 1 ex_ptr 100 401, EngineSetContextForObject 100 401,
               EngineSetOwnershipCPP 100 401,
               NewGoValue 2 ex_ptr 100 402, EngineSetContextForObject 100 402,
               EngineSetOwnershipCPP 100 402]\<rparr>"

definition ex_doomed :: state where
  "ex_doomed = ex_dropped\<lparr>engine_heap :=
      [\<lparr>addr = 100, values_map = [(ex_ptr, 0)], destroyed = True\<rparr>]\<rparr>"

definition ex_released :: state where
  "ex_released = \<lparr>engines = [],
      engine_heap = [\<lparr>addr = 100, values_map = [], destroyed = True\<rparr>],
      fold_heap =
        [\<lparr>engine = Some 0, gvalue = ex_ptr, cvalue = 400, init = None,
          prev = None, next_fold = Some 2, owner = jsOwner\<rparr>,
         \<lparr>engine = Some 0, gvalue = ex_ptr, cvalue = 401, init = None,
          prev = Some 0, next_fold = None, owner = cppOwner\<rparr>,
         \<lparr>engine = Some 0, gvalue = ex_ptr, cvalue = 402, init = None,
          prev = None, next_fold = None, owner = cppOwner\<rparr>],
      typeNew = [], guiLock = 0, guiLoopRef = 1, guiPaintRef = 0,
      hookWaiting = 0, valuesAlive = 1, calls = calls ex_dropped\<rparr>"


definition ex_two :: state where
  "ex_two = \<lparr>engines = [(100, 0), (200, 1)],
      engine_heap = [\<lparr>addr = 100, values_map = [(ex_ptr, 0)], destroyed = False\<rparr>,
                     \<lparr>addr = 200, values_map = [(ex_ptr, 1)], destroyed = False\<rparr>],
      fold_heap =
        [\<lparr>engine = Some 0, gvalue = ex_ptr, cvalue = 400, init = None,
          prev = None, next_fold = None, owner = jsOwner\<rparr>,
         \<lparr>engine = Some 1, gvalue = ex_ptr, cvalue = 401, init = None,
          prev = None, next_fold = None, owner = jsOwner\<rparr>,
         \<lparr>engine = None, gvalue = ex_ptr, cvalue = 402, init = Some 9,
          prev = None, next_fold = None, owner = jsOwner\<rparr>],
      typeNew = [2], guiLock = 0, guiLoopRef = 1, guiPaintRef = 0,
      hookWaiting = 0, valuesAlive = 3, calls = []\<rparr>"


definition ex_spec :: TypeSpec where
  "ex_spec = \<lparr>spec_init = 9, spec_in = [TPtr (TNamed ''Item'' (TBase ''struct'')),
                                         TNamed ''qml.Object'' (TBase ''interface'')]\<rparr>"



definition ex_pair :: state where
  "ex_pair = \<lparr>engines = [(100, 0), (200, 1)],
      engine_heap = [\<lparr>addr = 100, values_map = [], destroyed = False\<rparr>,
                     \<lparr>addr = 200, values_map = [], destroyed = False\<rparr>],
      fold_heap = [], typeNew = [], guiLock = 0, guiLoopRef = 1, guiPaintRef = 0,
      hookWaiting = 0, valuesAlive = 0, calls = []\<rparr>"

definition ex_stray_ops :: "op list" where
  "ex_stray_ops = [Wrap 1 400 0 ex_ptr jsOwner, Wrap 1 401 0 ex_ptr cppOwner,
                   Wrap 1 402 0 ex_ptr cppOwner, Destroy 100 0, Destroy 100 2,
                   Wrap 1 403 1 ex_ptr jsOwner]"

definition ex_stray :: state where
  "ex_stray = \<lparr>engines = [(100, 0), (200, 1)],
      engine_heap = [\<lparr>addr = 100, values_map = [], destroyed = False\<rparr>,
                     \<lparr>addr = 200, values_map = [(ex_ptr, 3)], destroyed = False\<rparr>],
      fold_heap =
        [\<lparr>engine = Some 0, gvalue = ex_ptr, cvalue = 400, init = None,
          prev = None, next_fold = Some 2, owner = jsOwner\<rparr>,
         \<lparr>engine = Some 0, gvalue = ex_ptr, cvalue = 401, init = None,
          prev = Some 0, next_fold = None, owner = cppOwner\<rparr>,
         \<lparr>engine = Some 0, gvalue = ex_ptr, cvalue = 402, init = None,
          prev = None, next_fold = None, owner = cppOwner\<rparr>,
         \<lparr>engine = Some 1, gvalue = ex_ptr, cvalue = 403, init = None,
          prev = None, next_fold = None, owner = jsOwner\<rparr>],
      typeNew = [], guiLock = 0, guiLoopRef = 1, guiPaintRef = 0,
      hookWaiting = 0, valuesAlive = 2,
      calls = [NewGoValue 0 ex_ptr 0 400, EngineSetContextForObject 100 400,
               EngineSetOwnershipJS 100 400,
               NewGoValue 1 ex_ptr 100 401, EngineSetContextForObject 100 401,
               EngineSetOwnershipCPP 100 401,
               NewGoValue 2 ex_ptr 100 402, EngineSetContextForObject 100 402,
               EngineSetOwnershipCPP 100 402,
               NewGoValue 3 ex_ptr 0 403, EngineSetContextForObject 200 403,
               EngineSetOwnershipJS 200 403]\<rparr>"


section \<open>Reuse policy of wrapGoValue\<close>

text \<open>
  C1. When the engine's value map already holds a fold for the value, wrapGoValue returns
  that fold's native handle and leaves the whole state as it was exactly when the fold's
  ownership equals the requested one, or the request is not native-owned, or the caller is
  the thread that is painting. In every other case it returns the handle of a new native
  object, paired with a new fold at a fresh address. A key of a Go map is hashable, and
  the value is one that the pointer-of-pointer guard lets through.
\<close>

theorem wrapGoValue_reuse_iff:
  assumes "e < length (engine_heap st)"
    and "map_of (values_map (engine_heap st ! e)) v = Some p"
    and "p < length (fold_heap st)"
    and "gv_hashable v"
    and "\<not> (gv_kind v = Ptr \<and> gv_elem_kind v = Ptr)"
  shows "((wrapGoValue tid h e v own st = Return (cvalue (fold_heap st ! p)) st)
           = (owner (fold_heap st ! p) = own \<or> own \<noteq> cppOwner \<or> tid = guiPaintRef st))
    \<and> (\<not> (owner (fold_heap st ! p) = own \<or> own \<noteq> cppOwner \<or> tid = guiPaintRef st) \<longrightarrow>
         (\<exists>st'. wrapGoValue tid h e v own st = Return h st'
           \<and> length (fold_heap st') = Suc (length (fold_heap st))
           \<and> fold_heap st' ! length (fold_heap st)
               = \<lparr>engine = Some e, gvalue = v, cvalue = h, init = None,
                  prev = Some p, next_fold = None, owner = own\<rparr>
           \<and> NewGoValue (length (fold_heap st)) v (addr (engine_heap st ! e)) h \<in> set (calls st')
           \<and> valuesAlive st' = valuesAlive st + 1))"
proof -
  let ?c = "owner (fold_heap st ! p) = own \<or> own \<noteq> cppOwner \<or> tid = guiPaintRef st"
  have new: "\<exists>st'. wrapGoValue tid h e v own st = Return h st'
           \<and> length (fold_heap st') = Suc (length (fold_heap st))
           \<and> fold_heap st' ! length (fold_heap st)
               = \<lparr>engine = Some e, gvalue = v, cvalue = h, init = None,
                  prev = Some p, next_fold = None, owner = own\<rparr>
           \<and> NewGoValue (length (fold_heap st)) v (addr (engine_heap st ! e)) h \<in> set (calls st')
           \<and> valuesAlive st' = valuesAlive st + 1" if "\<not> ?c"
    using that assms by (auto simp: wrapGoValue_def Let_def nth_append)
  have "(wrapGoValue tid h e v own st = Return (cvalue (fold_heap st ! p)) st) = ?c"
  proof (cases ?c)
    case True
    then show ?thesis using assms by (auto simp: wrapGoValue_def Let_def)
  next
    case False
    have "wrapGoValue tid h e v own st \<noteq> Return (cvalue (fold_heap st ! p)) st"
    proof
      assume eq: "wrapGoValue tid h e v own st = Return (cvalue (fold_heap st ! p)) st"
      from new [OF False] obtain st' where "wrapGoValue tid h e v own st = Return h st'"
        and "length (fold_heap st') = Suc (length (fold_heap st))"
        by blast
      with eq show False by auto
    qed
    with False show ?thesis by simp
  qed
  with new show ?thesis by blast
qed

theorem wrapGoValue_reuse_iff_witness:
  "wrapGoValue 1 500 0 ex_ptr jsOwner ex_js = Return 400 ex_js
   \<and> wrapGoValue 1 500 0 ex_ptr cppOwner ex_js \<noteq> Return 400 ex_js
   \<and> (\<exists>st'. wrapGoValue 1 500 0 ex_ptr cppOwner ex_js = Return 500 st'
        \<and> length (fold_heap st') = 2
        \<and> fold_heap st' ! 1 = \<lparr>engine = Some 0, gvalue = ex_ptr, cvalue = 500, init = None,
                  prev = Some 0, next_fold = None, owner = cppOwner\<rparr>
        \<and> NewGoValue 1 ex_ptr 100 500 \<in> set (calls st')
        \<and> valuesAlive st' = 2)"
proof -
  have h: "0 < length (engine_heap ex_js)"
      "map_of (values_map (engine_heap ex_js ! 0)) ex_ptr = Some 0"
      "0 < length (fold_heap ex_js)" "gv_hashable ex_ptr"
      "\<not> (gv_kind ex_ptr = Ptr \<and> gv_elem_kind ex_ptr = Ptr)"
    by (simp_all add: ex_js_def ex_ptr_def)
  have js: "owner (fold_heap ex_js ! 0) = jsOwner" "jsOwner \<noteq> cppOwner" "1 \<noteq> guiPaintRef ex_js"
    by (simp_all add: ex_js_def jsOwner_def cppOwner_def)
  have vals: "cvalue (fold_heap ex_js ! 0) = 400" "length (fold_heap ex_js) = 1"
      "addr (engine_heap ex_js ! 0) = 100" "valuesAlive ex_js = 1"
    by (simp_all add: ex_js_def)
  from wrapGoValue_reuse_iff [OF h, of 1 500 jsOwner] js vals
  have a: "wrapGoValue 1 500 0 ex_ptr jsOwner ex_js = Return 400 ex_js"
    by simp
  from wrapGoValue_reuse_iff [OF h, of 1 500 cppOwner] js vals
  show ?thesis using a by (simp add: numeral_2_eq_2)
qed




section \<open>The reentrant lock\<close>

text \<open>
  C7. Starting with the lock count at zero, Lock, Lock, Unlock from any threads leave the
  count at one, which is positive, so that the idle hook stays in its blocking receive
  and the loop is frozen. One more Unlock brings the count to zero, and an Unlock at zero
  panics with the count still zero.
\<close>

theorem lock_reentrant:
  assumes "guiLock st = 0"
  shows "\<exists>s1 s2 s3 s4 s5.
      Lock t1 st = Some (Return () s1) \<and> Lock t2 s1 = Some (Return () s2) \<and> Unlock t3 s2 = Some (Return () s3)
      \<and> guiLock s3 = 1 \<and> word_sless 0 (guiLock s3) \<and> hookIdleTimer [] s3 = HookBlocks s3
      \<and> Unlock t4 s3 = Some (Return () s4) \<and> guiLock s4 = 0
      \<and> Unlock t5 s4 = Some (Panicked (Panic ''qml.Unlock called without lock being held'') s5)
      \<and> guiLock s5 = 0
      \<and> (\<exists>s0. Unlock t0 st = Some (Panicked (Panic ''qml.Unlock called without lock being held'') s0)
            \<and> guiLock s0 = guiLock st)"
proof -
  have L: "\<exists>s'. Lock t s = Some (Return () s') \<and> guiLock s' = guiLock s + 1" for t s
    by (simp add: Lock_def gui_def hook_round_def lock_body_def Let_def)
  have U: "\<exists>s'. Unlock t s = Some (Return () s') \<and> guiLock s' = guiLock s - 1"
    if "guiLock s \<noteq> 0" for t s
    using that by (simp add: Unlock_def gui_def hook_round_def unlock_body_def Let_def)
  have P: "\<exists>s'. Unlock t s = Some (Panicked (Panic ''qml.Unlock called without lock being held'') s')
      \<and> guiLock s' = 0" if "guiLock s = 0" for t s
    using that by (simp add: Unlock_def gui_def hook_round_def unlock_body_def Let_def)
  from L [of t1 st] assms obtain s1 where 1: "Lock t1 st = Some (Return () s1)" "guiLock s1 = 1"
    by auto
  from L [of t2 s1] 1 obtain s2 where 2: "Lock t2 s1 = Some (Return () s2)" "guiLock s2 = 2"
    by auto
  from U [of s2 t3] 2 obtain s3 where 3: "Unlock t3 s2 = Some (Return () s3)" "guiLock s3 = 1"
    by auto
  from U [of s3 t4] 3 obtain s4 where 4: "Unlock t4 s3 = Some (Return () s4)" "guiLock s4 = 0"
    by auto
  from P [of s4 t5] 4 obtain s5 where
    5: "Unlock t5 s4 = Some (Panicked (Panic ''qml.Unlock called without lock being held'') s5)"
      "guiLock s5 = 0"
    by auto
  have pos: "word_sless 0 (guiLock s3)"
    using 3 by (simp add: word_sless_alt)
  then have "hookIdleTimer [] s3 = HookBlocks s3"
    by simp
  moreover from P [of st t0] assms
  have "\<exists>s0. Unlock t0 st = Some (Panicked (Panic ''qml.Unlock called without lock being held'') s0)
      \<and> guiLock s0 = guiLock st"
    by auto
  ultimately show ?thesis using 1 2 3 4 5 pos by blast
qed

theorem lock_reentrant_witness:
  "\<exists>s1 s2 s3 s4 s5.
      Lock 2 ex_empty = Some (Return () s1) \<and> Lock 1 s1 = Some (Return () s2) \<and> Unlock 3 s2 = Some (Return () s3)
      \<and> guiLock s3 = 1 \<and> word_sless 0 (guiLock s3) \<and> hookIdleTimer [] s3 = HookBlocks s3
      \<and> Unlock 1 s3 = Some (Return () s4) \<and> guiLock s4 = 0
      \<and> Unlock 2 s4 = Some (Panicked (Panic ''qml.Unlock called without lock being held'') s5)
      \<and> guiLock s5 = 0
      \<and> (\<exists>s0. Unlock 4 ex_empty
              = Some (Panicked (Panic ''qml.Unlock called without lock being held'') s0)
            \<and> guiLock s0 = 0)"
proof -
  have z: "guiLock ex_empty = 0"
    by (simp add: ex_empty_def)
  from lock_reentrant [OF z, of 2 1 3 1 2 4] show ?thesis
    by (simp only: z)
qed

section \<open>Conversion of a list into a slice, and the one message of a failed write\<close>

lemma convert_elems_Inr:
  "(convert_elems conv t xs = Inr ys) = list_all2 (\<lambda>x y. convert1 conv t x = Inr y) xs ys"
proof (induction xs arbitrary: ys)
  case Nil
  show ?case by auto
next
  case (Cons x xs)
  show ?case
  proof (cases ys)
    case Nil
    then show ?thesis by (simp split: sum.splits)
  next
    case (Cons z zs)
    with Cons.IH [of zs] Cons.IH show ?thesis
      by (cases "convert1 conv t x"; cases "convert_elems conv t xs") auto
  qed
qed

lemma convert_elems_Inl:
  "(\<exists>p. convert_elems conv t xs = Inl p) = (\<exists>x\<in>set xs. \<exists>p. convert1 conv t x = Inl p)"
  by (induction xs) (auto split: sum.splits)

text \<open>
  C8, as stated, fails for the write of a decoded nil: no type converts the zero Value,
  and the write panics with the error that \<open>reflect\<close> raises for \<open>from.Type()\<close>, which
  runs before the recover is deferred, and not with the message of a failed conversion.
\<close>

theorem convertAndSet_nil_write_escapes:
  "convert1 ex_conv (TBase ''int'') VInvalid
     = Inl (ValueError ''reflect: call of reflect.Value.Convert on zero Value'')
   \<and> target_type None (Some ex_setter) = Inr (TBase ''int'')
   \<and> convertAndSet ex_conv None VInvalid (Some ex_setter)
       = Inl (ValueError ''reflect: call of reflect.Value.Type on zero Value'')"
  by (simp add: convertAndSet_def target_type_def convert1_def ex_setter_def)

text \<open>
  C8, amended. Writing a decoded list (a \<open>*List\<close>) to a target of slice kind converts
  every element on its own to the element type of the target, and hands the field or the
  setter a slice of the target type whose elements are the conversions of the originals,
  in order. When an element does not convert, and when a value that is not nil and not
  such a list does not convert to the target type, the write panics with the message
  "cannot use (source type) as a (target type)". The write of a nil panics with the error
  of \<open>reflect\<close> for the type of the zero Value.
\<close>

theorem convertAndSet_list:
  "(rkind tt = Slice \<and> list_all2 (\<lambda>x y. convert1 conv (relem tt) x = Inr y) xs ys \<longrightarrow>
      (fld_type f = tt \<and> fld_settable f \<longrightarrow>
         convertAndSet conv (Some f) (VListPtr (Some xs)) None = Inr (FieldSet (VSliceV tt ys)))
      \<and> (set_params s = [tt] \<and> set_body s (VSliceV tt ys) = None \<longrightarrow>
         convertAndSet conv tgt (VListPtr (Some xs)) (Some s) = Inr (SetterCalled (VSliceV tt ys))))
   \<and> (rkind tt = Slice \<and> target_type tgt sm = Inr tt
        \<and> (\<exists>x\<in>set xs. \<exists>p. convert1 conv (relem tt) x = Inl p) \<longrightarrow>
      convertAndSet conv tgt (VListPtr (Some xs)) sm
        = Inl (Panic (''cannot use *qml.List as a '' @ type_string tt)))
   \<and> (target_type tgt sm = Inr tt \<and> type_of src = Some ft \<and> tt \<noteq> ft
        \<and> \<not> (ft = listType \<and> rkind tt = Slice)
        \<and> (\<exists>p. convert1 conv tt src = Inl p) \<longrightarrow>
      convertAndSet conv tgt src sm
        = Inl (Panic (''cannot use '' @ type_string ft @ '' as a '' @ type_string tt)))
   \<and> (target_type tgt sm = Inr tt \<and> type_of src = None \<longrightarrow>
      convertAndSet conv tgt src sm
        = Inl (ValueError ''reflect: call of reflect.Value.Type on zero Value''))"
proof (intro conjI impI)
  assume a: "rkind tt = Slice \<and> list_all2 (\<lambda>x y. convert1 conv (relem tt) x = Inr y) xs ys"
  then have ce: "convert_elems conv (relem tt) xs = Inr ys"
    by (simp add: convert_elems_Inr)
  show "convertAndSet conv (Some f) (VListPtr (Some xs)) None = Inr (FieldSet (VSliceV tt ys))"
    if "fld_type f = tt \<and> fld_settable f"
    using that a ce
    by (simp add: convertAndSet_def target_type_def convert_body_def assign_def)
  show "convertAndSet conv tgt (VListPtr (Some xs)) (Some s) = Inr (SetterCalled (VSliceV tt ys))"
    if "set_params s = [tt] \<and> set_body s (VSliceV tt ys) = None"
    using that a ce
    by (simp add: convertAndSet_def target_type_def convert_body_def assign_def)
next
  assume a: "rkind tt = Slice \<and> target_type tgt sm = Inr tt
        \<and> (\<exists>x\<in>set xs. \<exists>p. convert1 conv (relem tt) x = Inl p)"
  then obtain p where "convert_elems conv (relem tt) xs = Inl p"
    using convert_elems_Inl [of conv "relem tt" xs] by blast
  with a show "convertAndSet conv tgt (VListPtr (Some xs)) sm
        = Inl (Panic (''cannot use *qml.List as a '' @ type_string tt))"
    by (simp add: convertAndSet_def convert_body_def listType_def)
next
  assume a: "target_type tgt sm = Inr tt \<and> type_of src = Some ft \<and> tt \<noteq> ft
        \<and> \<not> (ft = listType \<and> rkind tt = Slice)
        \<and> (\<exists>p. convert1 conv tt src = Inl p)"
  then show "convertAndSet conv tgt src sm
        = Inl (Panic (''cannot use '' @ type_string ft @ '' as a '' @ type_string tt))"
    by (auto simp: convertAndSet_def convert_body_def)
next
  assume "target_type tgt sm = Inr tt \<and> type_of src = None"
  then show "convertAndSet conv tgt src sm
        = Inl (ValueError ''reflect: call of reflect.Value.Type on zero Value'')"
    by (simp add: convertAndSet_def)
qed

theorem convertAndSet_list_witness:
  "convertAndSet ex_conv (Some ex_floats)
      (VListPtr (Some [VOther (TBase ''int'') 1, VOther (TBase ''float64'') 2])) None
     = Inr (FieldSet (VSliceV (TSlice (TBase ''float64''))
              [VOther (TBase ''float64'') 1, VOther (TBase ''float64'') 2]))
   \<and> convertAndSet ex_conv (Some ex_floats)
      (VListPtr (Some [VOther (TBase ''int'') 1, VOther (TBase ''string'') 2])) None
     = Inl (Panic ''cannot use *qml.List as a []float64'')
   \<and> convertAndSet ex_conv (Some ex_count) (VOther (TBase ''string'') 3) None
     = Inl (Panic ''cannot use string as a int'')
   \<and> convertAndSet ex_conv (Some ex_floats) VInvalid None
     = Inl (ValueError ''reflect: call of reflect.Value.Type on zero Value'')"
proof -
  let ?tt = "TSlice (TBase ''float64'')"
  let ?xs = "[VOther (TBase ''int'') 1, VOther (TBase ''float64'') 2]"
  let ?ys = "[VOther (TBase ''float64'') 1, VOther (TBase ''float64'') 2]"
  let ?bad = "[VOther (TBase ''int'') 1, VOther (TBase ''string'') 2]"
  have 1: "rkind ?tt = Slice
      \<and> list_all2 (\<lambda>x y. convert1 ex_conv (relem ?tt) x = Inr y) ?xs ?ys"
    by (simp add: convert1_def ex_conv_def)
  have f1: "fld_type ex_floats = ?tt \<and> fld_settable ex_floats"
    by (simp add: ex_floats_def)
  have 2: "rkind ?tt = Slice \<and> target_type (Some ex_floats) None = Inr ?tt
      \<and> (\<exists>x\<in>set ?bad. \<exists>p. convert1 ex_conv (relem ?tt) x = Inl p)"
    by (simp add: convert1_def ex_conv_def target_type_def ex_floats_def)
  have 3: "target_type (Some ex_count) None = Inr (TBase ''int'')
      \<and> type_of (VOther (TBase ''string'') 3) = Some (TBase ''string'')
      \<and> TBase ''int'' \<noteq> TBase ''string''
      \<and> \<not> (TBase ''string'' = listType \<and> rkind (TBase ''int'') = Slice)
      \<and> (\<exists>p. convert1 ex_conv (TBase ''int'') (VOther (TBase ''string'') 3) = Inl p)"
    by (simp add: convert1_def ex_conv_def target_type_def ex_count_def)
  from convertAndSet_list [where tt = ?tt and conv = ex_conv and xs = ?xs and ys = ?ys
      and f = ex_floats] 1 f1
  have a: "convertAndSet ex_conv (Some ex_floats) (VListPtr (Some ?xs)) None
      = Inr (FieldSet (VSliceV ?tt ?ys))"
    by blast
  from convertAndSet_list [where tt = ?tt and conv = ex_conv and tgt = "Some ex_floats"
      and sm = None and xs = ?bad] 2
  have b: "convertAndSet ex_conv (Some ex_floats) (VListPtr (Some ?bad)) None
      = Inl (Panic (''cannot use *qml.List as a '' @ type_string ?tt))"
    by blast
  from convertAndSet_list [where tt = "TBase ''int''" and conv = ex_conv
      and tgt = "Some ex_count" and sm = None and src = "VOther (TBase ''string'') 3"
      and ft = "TBase ''string''"] 3
  have c: "convertAndSet ex_conv (Some ex_count) (VOther (TBase ''string'') 3) None
      = Inl (Panic (''cannot use '' @ type_string (TBase ''string'') @ '' as a ''
               @ type_string (TBase ''int'')))"
    by blast
  have 4: "target_type (Some ex_floats) None = Inr ?tt \<and> type_of VInvalid = None"
    by (simp add: target_type_def ex_floats_def)
  from convertAndSet_list [where tt = ?tt and conv = ex_conv and tgt = "Some ex_floats"
      and sm = None and src = VInvalid] 4
  have d: "convertAndSet ex_conv (Some ex_floats) VInvalid None
     = Inl (ValueError ''reflect: call of reflect.Value.Type on zero Value'')"
    by blast
  from a b c d show ?thesis by simp
qed






section \<open>Chain integrity and destruction bookkeeping after two native-owned wraps\<close>

lemma ex_ptr_guards:
  "gv_hashable ex_ptr" "gv_kind ex_ptr = Ptr" "gv_elem_kind ex_ptr = Struct"
  by (simp_all add: ex_ptr_def)

lemma owners_differ: "jsOwner \<noteq> cppOwner" "cppOwner \<noteq> jsOwner"
  by (simp_all add: jsOwner_def cppOwner_def)

lemma ex_wraps_run:
  "run ex_wraps ex_empty = Some ex_dropped"
  by (simp add: ex_wraps_def ex_empty_def ex_dropped_def wrapGoValue_def Let_def
      ex_ptr_guards owners_differ nilPtr_def)

text \<open>
  C2, on the code: wrapGoValue links a new fold behind the root that the value map holds,
  not behind the tail as ensureEngine does. After a script-owned wrap and two native-owned
  wraps of one value, the root's \<open>next\<close> is the third fold: the walk from the root visits
  folds 0 and 2 only, while fold 1 is alive, belongs to the engine and the value, and has
  \<open>prev\<close> pointing to the root.
\<close>

theorem wrapGoValue_drops_alias:
  "run ex_wraps ex_empty = Some ex_dropped
   \<and> map_of (values_map (engine_heap ex_dropped ! 0)) ex_ptr = Some 0
   \<and> chain (fold_heap ex_dropped) None (Some 0) [0, 2]
   \<and> engine (fold_heap ex_dropped ! 1) = Some 0
   \<and> gvalue (fold_heap ex_dropped ! 1) = ex_ptr
   \<and> prev (fold_heap ex_dropped ! 1) = Some 0
   \<and> next_fold (fold_heap ex_dropped ! 0) = Some 2
   \<and> valuesAlive ex_dropped = 3"
  using ex_wraps_run by (simp add: ex_dropped_def)

theorem wrapGoValue_drops_alias_witness:
  "\<exists>st. run ex_wraps ex_empty = Some st \<and> \<not> chain (fold_heap st) None (Some 0) [0, 1, 2]
     \<and> engine (fold_heap st ! 1) = Some 0"
proof -
  have "\<not> chain (fold_heap ex_dropped) None (Some 0) [0, 1, 2]"
    by (simp add: ex_dropped_def)
  with wrapGoValue_drops_alias show ?thesis by blast
qed

text \<open>
  C5, on the code: with the three folds above and the engine marked destroyed, destroying
  the root and then the third fold empties the value map and takes the engine out of the
  registry, while the second fold is alive; its destruction then panics.
\<close>

theorem engine_released_early:
  "run ex_wraps ex_empty = Some ex_dropped
   \<and> ex_doomed = ex_dropped\<lparr>engine_heap := [(engine_heap ex_dropped ! 0)\<lparr>destroyed := True\<rparr>]\<rparr>
   \<and> run [Destroy 100 0, Destroy 100 2] ex_doomed = Some ex_released
   \<and> map_of (engines ex_released) 100 = None
   \<and> valuesAlive ex_released = 1
   \<and> hookGoValueDestroyed 100 1 ex_released = Panicked (Panic
        ''engine 0x64 was released from global list while its values were still alive'')
        ex_released"
proof -
  have "ex_doomed = ex_dropped\<lparr>engine_heap := [(engine_heap ex_dropped ! 0)\<lparr>destroyed := True\<rparr>]\<rparr>"
    by (simp add: ex_doomed_def ex_dropped_def)
  moreover have "run [Destroy 100 0, Destroy 100 2] ex_doomed = Some ex_released"
    by (simp add: ex_doomed_def ex_dropped_def ex_released_def hookGoValueDestroyed_def
        Let_def ex_ptr_guards AList.delete_eq)
  moreover have "hookGoValueDestroyed 100 1 ex_released = Panicked (Panic
        ''engine 0x64 was released from global list while its values were still alive'')
        ex_released"
    by (simp add: ex_released_def hookGoValueDestroyed_def Let_def fmt_p_def hex_char_def)
  ultimately show ?thesis
    using ex_wraps_run by (simp add: ex_released_def)
qed


theorem engine_released_early_witness:
  "\<exists>st. run (ex_wraps @ []) ex_empty = Some st
     \<and> run [Destroy 100 0, Destroy 100 2]
          (st\<lparr>engine_heap := [(engine_heap st ! 0)\<lparr>destroyed := True\<rparr>]\<rparr>) = Some ex_released
     \<and> engines ex_released = []"
proof -
  have "engines ex_released = []"
    by (simp add: ex_released_def)
  with engine_released_early show ?thesis by simp
qed

section \<open>Pending folds and their resolution\<close>

lemma chain_frame:
  assumes "chain h pr x xs" and "length h \<le> length h'"
    and "\<forall>a\<in>set xs. prev (h' ! a) = prev (h ! a) \<and> next_fold (h' ! a) = next_fold (h ! a)"
  shows "chain h' pr x xs"
  using assms by (induction xs arbitrary: pr x) auto

lemma chain_unique:
  "chain h pr x xs \<Longrightarrow> chain h pr' x ys \<Longrightarrow> xs = ys"
proof (induction xs arbitrary: pr pr' x ys)
  case Nil
  then show ?case by (cases ys) auto
next
  case (Cons a as)
  then show ?case by (cases ys) auto
qed

lemma chain_suffix:
  "chain h pr x (as @ b # bs) \<Longrightarrow> chain h (Some b) (next_fold (h ! b)) bs"
  by (induction as arbitrary: pr x) auto

lemma chain_head_fresh:
  assumes "chain h (Some a) (next_fold (h ! a)) as"
  shows "a \<notin> set as"
proof
  assume "a \<in> set as"
  then obtain bs cs where split: "as = bs @ a # cs"
    by (auto simp: in_set_conv_decomp)
  with assms have "chain h (Some a) (next_fold (h ! a)) cs"
    using chain_suffix by blast
  with assms have "as = cs"
    by (rule chain_unique)
  with split show False by simp
qed

lemma chain_distinct: "chain h pr x xs \<Longrightarrow> distinct xs"
  by (induction xs arbitrary: pr x) (auto dest: chain_head_fresh)

lemma chain_last:
  "chain h pr (Some r) xs \<Longrightarrow> last_fold h r = Some (Inr (last xs))"
proof (induction xs arbitrary: pr r)
  case Nil
  then show ?case by simp
next
  case (Cons a as)
  then have r: "r = a" "a < length h" and rest: "chain h (Some a) (next_fold (h ! a)) as"
    by simp_all
  show ?case
  proof (cases as)
    case Nil
    with rest r show ?thesis
      by (subst last_fold.simps) simp
  next
    case (Cons b bs)
    with rest have nb: "next_fold (h ! a) = Some b"
      by simp
    from Cons.IH [of "Some a" b] rest nb have "last_fold h b = Some (Inr (last as))"
      by simp
    with r nb Cons show ?thesis
      by (subst last_fold.simps) simp
  qed
qed

lemma chain_snoc:
  assumes "chain h pr x xs" and "xs \<noteq> []" and "f \<notin> set xs" and "f < length h'"
    and "length h \<le> length h'"
    and "\<forall>a\<in>set xs. prev (h' ! a) = prev (h ! a)"
    and "\<forall>a\<in>set xs. a \<noteq> last xs \<longrightarrow> next_fold (h' ! a) = next_fold (h ! a)"
    and "next_fold (h' ! last xs) = Some f"
    and "prev (h' ! f) = Some (last xs)" and "next_fold (h' ! f) = None"
  shows "chain h' pr x (xs @ [f])"
  using assms
proof (induction xs arbitrary: pr x)
  case Nil
  then show ?case by simp
next
  case (Cons a as)
  from Cons.prems(1) have hd: "x = Some a" "a < length h" "prev (h ! a) = pr"
    and rest: "chain h (Some a) (next_fold (h ! a)) as"
    by simp_all
  show ?case
  proof (cases as)
    case Nil
    with Cons.prems hd show ?thesis by simp
  next
    case (Cons b bs)
    from rest have "a \<notin> set as" by (rule chain_head_fresh)
    with Cons have ne: "a \<noteq> last (a # as)" by auto
    with Cons.prems(7) have nx: "next_fold (h' ! a) = next_fold (h ! a)" by simp
    have "chain h' (Some a) (next_fold (h ! a)) (as @ [f])"
      using Cons.prems Cons rest by (intro Cons.IH) auto
    with hd nx Cons.prems(5,6) show ?thesis by simp
  qed
qed

lemma update_fresh_key: "map_of al k = None \<Longrightarrow> AList.update k v al = al @ [(k, v)]"
  by (induction al) (auto split: if_splits)

lemma chains_ok_link_root:
  assumes ok: "chains_ok st"
    and e: "e < length (engine_heap st)"
    and f: "f < length (fold_heap st)"
    and unlinked: "engine (fold_heap st ! f) = None" "prev (fold_heap st ! f) = None"
      "next_fold (fold_heap st ! f) = None"
    and fresh: "map_of (values_map (engine_heap st ! e)) (gvalue (fold_heap st ! f)) = None"
  shows "chains_ok (st\<lparr>fold_heap := (fold_heap st)[f := (fold_heap st ! f)\<lparr>engine := Some e\<rparr>],
      engine_heap := (engine_heap st)[e := (engine_heap st ! e)\<lparr>values_map :=
        AList.update (gvalue (fold_heap st ! f)) f (values_map (engine_heap st ! e))\<rparr>]\<rparr>)"
proof -
  let ?h = "fold_heap st"
  let ?v = "gvalue (?h ! f)"
  let ?h1 = "?h[f := (?h ! f)\<lparr>engine := Some e\<rparr>]"
  let ?vals = "values_map (engine_heap st ! e)"
  let ?eh = "(engine_heap st)[e := (engine_heap st ! e)\<lparr>values_map := AList.update ?v f ?vals\<rparr>]"
  have links: "prev (?h1 ! a) = prev (?h ! a) \<and> next_fold (?h1 ! a) = next_fold (?h ! a)" for a
    using f by (cases "a = f") simp_all
  have keep: "chain ?h1 None (Some r) xs
      \<and> (\<forall>a\<in>set xs. engine (?h1 ! a) = Some e' \<and> gvalue (?h1 ! a) = v')"
    if c: "chain ?h None (Some r) xs"
      and n: "\<forall>a\<in>set xs. engine (?h ! a) = Some e' \<and> gvalue (?h ! a) = v'" for r xs e' v'
  proof -
    from n unlinked(1) have "f \<notin> set xs" by auto
    then have "\<forall>a\<in>set xs. f \<noteq> a" by auto
    then have "\<forall>a\<in>set xs. ?h1 ! a = ?h ! a" by simp
    with n chain_frame [OF c, of ?h1] links show ?thesis by simp
  qed
  have "\<exists>xs. chain ?h1 None (Some (snd vr)) xs
      \<and> (\<forall>a\<in>set xs. engine (?h1 ! a) = Some e' \<and> gvalue (?h1 ! a) = fst vr)"
    if e': "e' < length (engine_heap st)" and vr: "vr \<in> set (values_map (?eh ! e'))" for e' vr
  proof (cases "e' = e \<and> vr = (?v, f)")
    case True
    with f unlinked show ?thesis by (intro exI [of _ "[f]"]) simp
  next
    case False
    with vr e have "vr \<in> set (values_map (engine_heap st ! e'))"
      by (cases "e' = e") (auto simp: update_fresh_key [OF fresh])
    with ok e' obtain xs where "chain ?h None (Some (snd vr)) xs"
      "\<forall>a\<in>set xs. engine (?h ! a) = Some e' \<and> gvalue (?h ! a) = fst vr"
      unfolding chains_ok_def by blast
    with keep show ?thesis by blast
  qed
  moreover have "distinct (map fst (values_map (?eh ! e')))"
    if "e' < length (engine_heap st)" for e'
    using that ok e by (cases "e' = e") (auto simp: chains_ok_def distinct_update)
  moreover have "\<forall>ae\<in>set (engines st). snd ae < length (engine_heap st)"
    using ok by (simp add: chains_ok_def)
  ultimately show ?thesis
    by (simp add: chains_ok_def)
qed

lemma chain_valid: "chain h pr x xs \<Longrightarrow> \<forall>a\<in>set xs. a < length h"
  by (induction xs arbitrary: pr x) auto

lemma link_after_nth:
  assumes "f < length h" and "t < length h" and "t \<noteq> f"
  shows "link_after h e f t ! f = (h ! f)\<lparr>engine := Some e, prev := Some t\<rparr>"
    and "link_after h e f t ! t = (h ! t)\<lparr>next_fold := Some f\<rparr>"
    and "a \<noteq> f \<Longrightarrow> a \<noteq> t \<Longrightarrow> link_after h e f t ! a = h ! a"
    and "length (link_after h e f t) = length h"
  using assms by (simp_all add: link_after_def Let_def)

lemma chains_ok_link_tail:
  assumes ok: "chains_ok st"
    and e: "e < length (engine_heap st)"
    and f: "f < length (fold_heap st)"
    and unlinked: "engine (fold_heap st ! f) = None" "next_fold (fold_heap st ! f) = None"
    and root: "map_of (values_map (engine_heap st ! e)) (gvalue (fold_heap st ! f)) = Some r"
    and c: "chain (fold_heap st) None (Some r) xs"
  shows "chains_ok (st\<lparr>fold_heap := link_after (fold_heap st) e f (last xs)\<rparr>)"
    and "chain (link_after (fold_heap st) e f (last xs)) None (Some r) (xs @ [f])"
    and "f \<notin> set xs" and "last xs < length (fold_heap st)"
proof -
  let ?h = "fold_heap st"
  let ?v = "gvalue (?h ! f)"
  let ?t = "last xs"
  let ?h3 = "link_after ?h e f ?t"
  from root have "(?v, r) \<in> set (values_map (engine_heap st ! e))"
    by (rule map_of_SomeD)
  with ok e obtain ys where "chain ?h None (Some r) ys"
    and "\<forall>a\<in>set ys. engine (?h ! a) = Some e \<and> gvalue (?h ! a) = ?v"
    unfolding chains_ok_def by fastforce
  with c have nodes: "\<forall>a\<in>set xs. engine (?h ! a) = Some e \<and> gvalue (?h ! a) = ?v"
    using chain_unique by blast
  with unlinked(1) show fx: "f \<notin> set xs" by auto
  from c have ne: "xs \<noteq> []" by auto
  then have tin: "?t \<in> set xs" by simp
  with fx have tf: "?t \<noteq> f" by auto
  from tin chain_valid [OF c] show t: "?t < length ?h" by simp
  note nth = link_after_nth [OF f t tf, where e = e]
  have xs_prev: "\<forall>a\<in>set xs. prev (?h3 ! a) = prev (?h ! a)"
  proof
    fix a assume "a \<in> set xs"
    with fx have "a \<noteq> f" by auto
    then show "prev (?h3 ! a) = prev (?h ! a)"
      using nth(2,3) by (cases "a = ?t") simp_all
  qed
  have xs_next: "\<forall>a\<in>set xs. a \<noteq> last xs \<longrightarrow> next_fold (?h3 ! a) = next_fold (?h ! a)"
  proof (intro ballI impI)
    fix a assume "a \<in> set xs" "a \<noteq> last xs"
    with fx have "a \<noteq> f" by auto
    with \<open>a \<noteq> last xs\<close> show "next_fold (?h3 ! a) = next_fold (?h ! a)"
      using nth(3) by simp
  qed
  show snoc: "chain ?h3 None (Some r) (xs @ [f])"
    using c ne fx f xs_prev xs_next unlinked(2) nth(1,2,4)
    by (intro chain_snoc [where h = ?h]) simp_all
  have xs_nodes: "\<forall>a\<in>set (xs @ [f]). engine (?h3 ! a) = Some e \<and> gvalue (?h3 ! a) = ?v"
  proof
    fix a assume a: "a \<in> set (xs @ [f])"
    show "engine (?h3 ! a) = Some e \<and> gvalue (?h3 ! a) = ?v"
    proof (cases "a = f")
      case True
      then show ?thesis using nth(1) by simp
    next
      case False
      with a have "a \<in> set xs" by simp
      with nodes False show ?thesis
        using nth(2,3) by (cases "a = ?t") simp_all
    qed
  qed
  have "\<exists>zs. chain ?h3 None (Some (snd vr)) zs
      \<and> (\<forall>a\<in>set zs. engine (?h3 ! a) = Some e' \<and> gvalue (?h3 ! a) = fst vr)"
    if e': "e' < length (engine_heap st)" and vr: "vr \<in> set (values_map (engine_heap st ! e'))"
    for e' vr
  proof -
    from ok e' vr obtain zs where cz: "chain ?h None (Some (snd vr)) zs"
      and nz: "\<forall>a\<in>set zs. engine (?h ! a) = Some e' \<and> gvalue (?h ! a) = fst vr"
      and dist: "distinct (map fst (values_map (engine_heap st ! e')))"
      unfolding chains_ok_def by blast
    show ?thesis
    proof (cases "e' = e \<and> fst vr = ?v")
      case True
      with vr dist have "map_of (values_map (engine_heap st ! e)) ?v = Some (snd vr)"
        by (metis map_of_is_SomeI prod.collapse)
      with root have "snd vr = r" by simp
      with snoc xs_nodes True show ?thesis
        by (intro exI [of _ "xs @ [f]"]) simp
    next
      case False
      from nz unlinked(1) have fz: "f \<notin> set zs" by auto
      from nz nodes tin False have tz: "?t \<notin> set zs" by auto
      have "\<forall>a\<in>set zs. ?h3 ! a = ?h ! a"
      proof
        fix a assume "a \<in> set zs"
        with fz tz have "a \<noteq> f" "a \<noteq> ?t" by auto
        then show "?h3 ! a = ?h ! a" by (rule nth(3))
      qed
      with nz chain_frame [OF cz, of ?h3] nth(4) show ?thesis
        by (intro exI [of _ zs]) simp
    qed
  qed
  with ok show "chains_ok (st\<lparr>fold_heap := ?h3\<rparr>)"
    by (simp add: chains_ok_def)
qed

lemma link_fold_root:
  assumes e: "e < length (engine_heap st)" and f: "f < length (fold_heap st)"
    and hash: "gv_hashable (gvalue (fold_heap st ! f))"
    and fresh: "map_of (values_map (engine_heap st ! e)) (gvalue (fold_heap st ! f)) = None"
  shows "link_fold e f st = Some (Inr
    (st\<lparr>fold_heap := (fold_heap st)[f := (fold_heap st ! f)\<lparr>engine := Some e\<rparr>],
      engine_heap := (engine_heap st)[e := (engine_heap st ! e)\<lparr>values_map :=
        AList.update (gvalue (fold_heap st ! f)) f (values_map (engine_heap st ! e))\<rparr>]\<rparr>))"
  using assms by (simp add: link_fold_def Let_def)

lemma link_fold_tail:
  assumes e: "e < length (engine_heap st)" and f: "f < length (fold_heap st)"
    and hash: "gv_hashable (gvalue (fold_heap st ! f))"
    and root: "map_of (values_map (engine_heap st ! e)) (gvalue (fold_heap st ! f)) = Some r"
    and c: "chain (fold_heap st) None (Some r) xs"
  shows "link_fold e f st
    = Some (Inr (st\<lparr>fold_heap := link_after (fold_heap st) e f (last xs)\<rparr>))"
proof -
  let ?h = "fold_heap st"
  let ?h1 = "?h[f := (?h ! f)\<lparr>engine := Some e\<rparr>]"
  have links: "prev (?h1 ! a) = prev (?h ! a) \<and> next_fold (?h1 ! a) = next_fold (?h ! a)" for a
    using f by (cases "a = f") simp_all
  with chain_frame [OF c, of ?h1] have "chain ?h1 None (Some r) xs"
    by simp
  then have "last_fold ?h1 r = Some (Inr (last xs))"
    by (rule chain_last)
  with e f hash root show ?thesis
    by (simp add: link_fold_def link_after_def Let_def)
qed

lemma removeAll_shrinks: "x \<in> set xs \<Longrightarrow> length (removeAll x xs) \<noteq> length xs"
  using length_removeAll_less [of x xs] by simp

lemma removeAll_same: "x \<notin> set xs \<Longrightarrow> length (removeAll x xs) = length xs"
  by simp

lemma chains_ok_cong:
  "engines s = engines t \<Longrightarrow> engine_heap s = engine_heap t \<Longrightarrow> fold_heap s = fold_heap t
     \<Longrightarrow> chains_ok s = chains_ok t"
  by (simp add: chains_ok_def)

lemma on_chain_unique:
  assumes ok: "chains_ok st" and on: "on_chain st e v f"
  shows "engine (fold_heap st ! f) = Some e \<and> gvalue (fold_heap st ! f) = v"
proof -
  from on obtain r xs where e: "e < length (engine_heap st)"
    and root: "map_of (values_map (engine_heap st ! e)) v = Some r"
    and c: "chain (fold_heap st) None (Some r) xs" and f: "f \<in> set xs"
    unfolding on_chain_def by blast
  from root have "(v, r) \<in> set (values_map (engine_heap st ! e))"
    by (rule map_of_SomeD)
  with ok e obtain ys where "chain (fold_heap st) None (Some r) ys"
    and n: "\<forall>a\<in>set ys. engine (fold_heap st ! a) = Some e \<and> gvalue (fold_heap st ! a) = v"
    unfolding chains_ok_def by fastforce
  with c have "xs = ys" using chain_unique by blast
  with n f show ?thesis by simp
qed

lemma link_fold_ok:
  assumes ok: "chains_ok st"
    and e: "e < length (engine_heap st)" and f: "f < length (fold_heap st)"
    and unlinked: "engine (fold_heap st ! f) = None" "prev (fold_heap st ! f) = None"
      "next_fold (fold_heap st ! f) = None"
    and hash: "gv_hashable (gvalue (fold_heap st ! f))"
  shows "\<exists>st2. link_fold e f st = Some (Inr st2)
      \<and> chains_ok st2
      \<and> typeNew st2 = typeNew st \<and> calls st2 = calls st \<and> engines st2 = engines st
      \<and> length (fold_heap st2) = length (fold_heap st)
      \<and> (\<forall>p. p \<noteq> f \<and> engine (fold_heap st ! p) = None \<longrightarrow>
            fold_heap st2 ! p = fold_heap st ! p)
      \<and> engine (fold_heap st2 ! f) = Some e
      \<and> gvalue (fold_heap st2 ! f) = gvalue (fold_heap st ! f)
      \<and> init (fold_heap st2 ! f) = init (fold_heap st ! f)
      \<and> cvalue (fold_heap st2 ! f) = cvalue (fold_heap st ! f)
      \<and> (\<forall>r xs. map_of (values_map (engine_heap st ! e)) (gvalue (fold_heap st ! f)) = Some r
             \<and> chain (fold_heap st) None (Some r) xs \<longrightarrow>
           map_of (values_map (engine_heap st2 ! e)) (gvalue (fold_heap st ! f)) = Some r
             \<and> chain (fold_heap st2) None (Some r) (xs @ [f]))
      \<and> (map_of (values_map (engine_heap st ! e)) (gvalue (fold_heap st ! f)) = None \<longrightarrow>
           map_of (values_map (engine_heap st2 ! e)) (gvalue (fold_heap st ! f)) = Some f
             \<and> chain (fold_heap st2) None (Some f) [f])
      \<and> on_chain st2 e (gvalue (fold_heap st ! f)) f"
proof (cases "map_of (values_map (engine_heap st ! e)) (gvalue (fold_heap st ! f))")
  case None
  let ?st2 = "st\<lparr>fold_heap := (fold_heap st)[f := (fold_heap st ! f)\<lparr>engine := Some e\<rparr>],
      engine_heap := (engine_heap st)[e := (engine_heap st ! e)\<lparr>values_map :=
        AList.update (gvalue (fold_heap st ! f)) f (values_map (engine_heap st ! e))\<rparr>]\<rparr>"
  have l: "link_fold e f st = Some (Inr ?st2)"
    by (rule link_fold_root [OF e f hash None])
  have c: "chains_ok ?st2"
    by (rule chains_ok_link_root [OF ok e f unlinked None])
  have m: "map_of (values_map (engine_heap ?st2 ! e)) (gvalue (fold_heap st ! f)) = Some f"
    using e by (simp add: update_conv')
  have ch: "chain (fold_heap ?st2) None (Some f) [f]"
    using f unlinked by simp
  from m e f unlinked have "on_chain ?st2 e (gvalue (fold_heap st ! f)) f"
    unfolding on_chain_def by (intro conjI exI [of _ f] exI [of _ "[f]"]) simp_all
  with l c m None f unlinked show ?thesis
    by (intro exI [of _ ?st2]) simp
next
  case (Some r)
  from Some have "(gvalue (fold_heap st ! f), r) \<in> set (values_map (engine_heap st ! e))"
    by (rule map_of_SomeD)
  with ok e obtain xs where c: "chain (fold_heap st) None (Some r) xs"
    and nodes: "\<forall>a\<in>set xs. engine (fold_heap st ! a) = Some e"
    unfolding chains_ok_def by fastforce
  let ?t = "last xs"
  let ?st2 = "st\<lparr>fold_heap := link_after (fold_heap st) e f ?t\<rparr>"
  note tail = chains_ok_link_tail [OF ok e f unlinked(1,3) Some c]
  from c have "xs \<noteq> []" by auto
  then have tin: "?t \<in> set xs" by simp
  with tail(3) have tf: "?t \<noteq> f" by auto
  note nth = link_after_nth [OF f tail(4) tf, where e = e]
  have l: "link_fold e f st = Some (Inr ?st2)"
    by (rule link_fold_tail [OF e f hash Some c])
  have others: "fold_heap ?st2 ! p = fold_heap st ! p"
    if "p \<noteq> f \<and> engine (fold_heap st ! p) = None" for p
  proof -
    from that nodes tin have "p \<noteq> ?t" by auto
    with that nth(3) show ?thesis by simp
  qed
  have app: "chain (fold_heap ?st2) None (Some r) (ys @ [f])"
    if "chain (fold_heap st) None (Some r) ys" for ys
  proof -
    from that c have "ys = xs" by (rule chain_unique)
    with tail(2) show ?thesis by simp
  qed
  from app [OF c] Some e have "on_chain ?st2 e (gvalue (fold_heap st ! f)) f"
    unfolding on_chain_def by (intro conjI exI [of _ r] exI [of _ "xs @ [f]"]) simp_all
  with l tail(1) others app Some nth(1,4) show ?thesis
    by (intro exI [of _ ?st2]) simp
qed

lemma wrapGoValue_typeNew:
  "wrapGoValue tid h e v own st = Return c s \<Longrightarrow> typeNew s = typeNew st"
  by (auto simp: wrapGoValue_def Let_def split: if_splits option.splits)

lemma hookGoValueTypeNew_typeNew:
  assumes "hookGoValueTypeNew a cv spec st = Return g s"
  shows "g = length (fold_heap st)" and "typeNew s = List.insert g (typeNew st)"
    and "fold_heap s = fold_heap st @ [fold_heap s ! g]"
    and "engine (fold_heap s ! g) = None" and "prev (fold_heap s ! g) = None"
    and "next_fold (fold_heap s ! g) = None"
    and "init (fold_heap s ! g) = Some (spec_init spec)"
    and "gv_hashable (gvalue (fold_heap s ! g))"
    and "engines s = engines st" and "engine_heap s = engine_heap st"
  using assms
  by (auto simp: hookGoValueTypeNew_def Let_def split: list.splits if_splits)

lemma link_fold_typeNew:
  "link_fold e g st = Some (Inr s) \<Longrightarrow> typeNew s = typeNew st"
  by (auto simp: link_fold_def Let_def split: if_splits option.splits sum.splits)

lemma ensureEngine_typeNew:
  "ensureEngine enginep g st = Some (Return r s) \<Longrightarrow>
     typeNew s = typeNew st \<or> typeNew s = removeAll g (typeNew st)"
  by (auto simp: ensureEngine_def Let_def dest!: link_fold_typeNew
      split: if_splits option.splits sum.splits prod.splits)

lemma hookGoValueDestroyed_typeNew:
  "hookGoValueDestroyed enginep g st = Return u s \<Longrightarrow>
     typeNew s = typeNew st \<or> typeNew s = removeAll g (typeNew st)"
  by (auto simp: hookGoValueDestroyed_def Let_def split: if_splits option.splits)

lemma apply_op_keeps_pending:
  assumes "f \<in> set (typeNew st)" and "\<not> concerns f x" and "apply_op x st = Some s"
  shows "f \<in> set (typeNew s)"
proof (cases x)
  case (Wrap tid h e v own)
  with assms show ?thesis
    by (auto dest: wrapGoValue_typeNew split: outcome.splits)
next
  case (TypeNew a cv spec)
  with assms show ?thesis
    by (auto dest!: hookGoValueTypeNew_typeNew(2) split: outcome.splits)
next
  case (Resolve enginep g)
  with assms have "g \<noteq> f" by simp
  with Resolve assms show ?thesis
    by (auto dest!: ensureEngine_typeNew split: outcome.splits option.splits)
next
  case (Destroy enginep g)
  with assms have "g \<noteq> f" by simp
  with Destroy assms show ?thesis
    by (auto dest!: hookGoValueDestroyed_typeNew split: outcome.splits)
qed

lemma run_keeps_pending:
  "f \<in> set (typeNew st) \<Longrightarrow> \<forall>x\<in>set ops. \<not> concerns f x \<Longrightarrow> run ops st = Some s
     \<Longrightarrow> f \<in> set (typeNew s)"
proof (induction ops arbitrary: st)
  case Nil
  then show ?case by simp
next
  case (Cons x ops)
  from Cons.prems(3) obtain m where m: "apply_op x st = Some m" and r: "run ops m = Some s"
    by (auto split: option.splits)
  from Cons.prems(1,2) m have "f \<in> set (typeNew m)"
    by (intro apply_op_keeps_pending [of f st x m]) simp_all
  with Cons.IH [of m] Cons.prems(2) r show ?case by simp
qed

lemma registry_ok_TypeNew:
  assumes ok: "registry_ok st" and new: "hookGoValueTypeNew a cv spec st = Return g s"
  shows "registry_ok s"
proof -
  note facts = hookGoValueTypeNew_typeNew [OF new]
  let ?h = "fold_heap st"
  note heap = facts(3) and g = facts(1)
  have old: "fold_heap s ! p = ?h ! p" if "p < length ?h" for p
    using that by (subst heap) (simp add: nth_append)
  have len: "length (fold_heap s) = Suc (length ?h)"
    by (subst heap) simp
  have "chains_ok s"
    unfolding chains_ok_def
  proof (intro conjI allI impI ballI)
    fix ae assume "ae \<in> set (engines s)"
    with ok facts show "snd ae < length (engine_heap s)"
      by (simp add: registry_ok_def chains_ok_def)
  next
    fix e assume "e < length (engine_heap s)"
    with ok facts show "distinct (map fst (values_map (engine_heap s ! e)))"
      by (simp add: registry_ok_def chains_ok_def)
  next
    fix e vr assume "e < length (engine_heap s)" "vr \<in> set (values_map (engine_heap s ! e))"
    with ok facts obtain xs where c: "chain ?h None (Some (snd vr)) xs"
      and n: "\<forall>a\<in>set xs. engine (?h ! a) = Some e \<and> gvalue (?h ! a) = fst vr"
      unfolding registry_ok_def chains_ok_def by fastforce
    from chain_valid [OF c] old have same: "\<forall>a\<in>set xs. fold_heap s ! a = ?h ! a"
      by simp
    with chain_frame [OF c, of "fold_heap s"] len n
    show "\<exists>xs. chain (fold_heap s) None (Some (snd vr)) xs
        \<and> (\<forall>a\<in>set xs. engine (fold_heap s ! a) = Some e \<and> gvalue (fold_heap s ! a) = fst vr)"
      by (intro exI [of _ xs]) simp
  qed
  moreover have "pending_ok s"
    unfolding pending_ok_def
  proof
    fix p assume "p \<in> set (typeNew s)"
    with facts(2) have "p = g \<or> p \<in> set (typeNew st)" by auto
    then show "p < length (fold_heap s) \<and> engine (fold_heap s ! p) = None
        \<and> prev (fold_heap s ! p) = None \<and> next_fold (fold_heap s ! p) = None
        \<and> init (fold_heap s ! p) \<noteq> None \<and> gv_hashable (gvalue (fold_heap s ! p))"
    proof
      assume "p = g"
      with facts(4-8) len g show ?thesis by auto
    next
      assume "p \<in> set (typeNew st)"
      with ok have p: "p < length ?h \<and> engine (?h ! p) = None \<and> prev (?h ! p) = None
          \<and> next_fold (?h ! p) = None \<and> init (?h ! p) \<noteq> None \<and> gv_hashable (gvalue (?h ! p))"
        by (simp add: registry_ok_def pending_ok_def)
      with old [of p] len show ?thesis by simp
    qed
  qed
  ultimately show ?thesis by (simp add: registry_ok_def)
qed

lemma ensureEngine_first:
  assumes ok: "registry_ok st" and pend: "f \<in> set (typeNew st)"
    and ep: "enginep \<noteq> nilPtr" and reg: "map_of (engines st) enginep = Some e"
  shows "\<exists>s. ensureEngine enginep f st = Some (Return f s)
      \<and> f \<notin> set (typeNew s) \<and> registry_ok s
      \<and> on_chain s e (gvalue (fold_heap st ! f)) f
      \<and> (\<forall>e' v'. on_chain s e' v' f \<longrightarrow> e' = e \<and> v' = gvalue (fold_heap st ! f))
      \<and> (\<forall>r xs. map_of (values_map (engine_heap st ! e)) (gvalue (fold_heap st ! f)) = Some r
             \<and> chain (fold_heap st) None (Some r) xs \<longrightarrow>
           map_of (values_map (engine_heap s ! e)) (gvalue (fold_heap st ! f)) = Some r
             \<and> chain (fold_heap s) None (Some r) (xs @ [f]))
      \<and> (map_of (values_map (engine_heap st ! e)) (gvalue (fold_heap st ! f)) = None \<longrightarrow>
           map_of (values_map (engine_heap s ! e)) (gvalue (fold_heap st ! f)) = Some f
             \<and> chain (fold_heap s) None (Some f) [f])
      \<and> calls s = calls st @ [InitCall (the (init (fold_heap st ! f)))
            (gvalue (fold_heap st ! f)) e (cvalue (fold_heap st ! f))]
      \<and> (\<forall>p. ensureEngine p f s = Some (Return f s))"
proof -
  let ?h = "fold_heap st"
  let ?v = "gvalue (?h ! f)"
  from ok have cok: "chains_ok st" and pok: "pending_ok st"
    by (simp_all add: registry_ok_def)
  from pok pend have f: "f < length ?h" and un: "engine (?h ! f) = None" "prev (?h ! f) = None"
      "next_fold (?h ! f) = None" and hash: "gv_hashable ?v"
    and "init (?h ! f) \<noteq> None"
    by (simp_all add: pending_ok_def)
  then obtain i where i: "init (?h ! f) = Some i" by auto
  from reg have "(enginep, e) \<in> set (engines st)" by (rule map_of_SomeD)
  with cok have e: "e < length (engine_heap st)"
    by (fastforce simp: chains_ok_def)
  from link_fold_ok [OF cok e f un hash] obtain st2 where
    l: "link_fold e f st = Some (Inr st2)" and c2: "chains_ok st2"
    and same: "typeNew st2 = typeNew st" "calls st2 = calls st" "engines st2 = engines st"
      "length (fold_heap st2) = length ?h"
    and others: "\<forall>p. p \<noteq> f \<and> engine (?h ! p) = None \<longrightarrow> fold_heap st2 ! p = ?h ! p"
    and mine: "engine (fold_heap st2 ! f) = Some e" "gvalue (fold_heap st2 ! f) = ?v"
      "init (fold_heap st2 ! f) = init (?h ! f)" "cvalue (fold_heap st2 ! f) = cvalue (?h ! f)"
    and app: "\<forall>r xs. map_of (values_map (engine_heap st ! e)) ?v = Some r
             \<and> chain ?h None (Some r) xs \<longrightarrow>
           map_of (values_map (engine_heap st2 ! e)) ?v = Some r
             \<and> chain (fold_heap st2) None (Some r) (xs @ [f])"
    and root: "map_of (values_map (engine_heap st ! e)) ?v = None \<longrightarrow>
           map_of (values_map (engine_heap st2 ! e)) ?v = Some f
             \<and> chain (fold_heap st2) None (Some f) [f]"
    and on: "on_chain st2 e ?v f"
    by (elim exE conjE) (rule that; assumption)
  define s where "s = st2\<lparr>typeNew := removeAll f (typeNew st2),
      calls := calls st2 @ [InitCall i ?v e (cvalue (?h ! f))]\<rparr>"
  have heap_s: "fold_heap s = fold_heap st2" "engine_heap s = engine_heap st2"
      "engines s = engines st2" "typeNew s = removeAll f (typeNew st)"
    by (simp_all add: s_def same)
  from pend same have shrink: "length (removeAll f (typeNew st2)) \<noteq> length (typeNew st2)"
    by (simp add: removeAll_shrinks)
  have res: "ensureEngine enginep f st = Some (Return f s)"
    using f un(1) ep reg l shrink mine i
    by (simp add: ensureEngine_def Let_def s_def)
  have cs: "chains_ok s"
    using c2 chains_ok_cong [of s st2] heap_s by simp
  have ps: "pending_ok s"
    unfolding pending_ok_def
  proof
    fix p assume "p \<in> set (typeNew s)"
    with heap_s have pf: "p \<noteq> f" and pin: "p \<in> set (typeNew st)" by auto
    from pok pin have p: "p < length ?h \<and> engine (?h ! p) = None \<and> prev (?h ! p) = None
        \<and> next_fold (?h ! p) = None \<and> init (?h ! p) \<noteq> None \<and> gv_hashable (gvalue (?h ! p))"
      by (simp add: pending_ok_def)
    with pf others have "fold_heap s ! p = ?h ! p"
      by (simp add: heap_s)
    with p same show "p < length (fold_heap s) \<and> engine (fold_heap s ! p) = None
        \<and> prev (fold_heap s ! p) = None \<and> next_fold (fold_heap s ! p) = None
        \<and> init (fold_heap s ! p) \<noteq> None \<and> gv_hashable (gvalue (fold_heap s ! p))"
      by (simp add: heap_s)
  qed
  have on_s: "on_chain s e' v' f = on_chain st2 e' v' f" for e' v'
    by (simp add: on_chain_def heap_s)
  have uniq: "e' = e \<and> v' = ?v" if "on_chain s e' v' f" for e' v'
    using on_chain_unique [OF cs that] mine by (simp add: heap_s)
  have again: "ensureEngine p f s = Some (Return f s)" for p
    using f mine same by (simp add: ensureEngine_def heap_s)
  have log: "calls s = calls st @ [InitCall (the (init (?h ! f))) ?v e (cvalue (?h ! f))]"
    by (simp add: s_def same i)
  have gone: "f \<notin> set (typeNew s)"
    by (simp add: heap_s)
  have rs: "registry_ok s"
    using cs ps by (simp add: registry_ok_def)
  have on': "on_chain s e ?v f"
    using on by (simp add: on_s)
  have app': "\<forall>r xs. map_of (values_map (engine_heap st ! e)) ?v = Some r
             \<and> chain ?h None (Some r) xs \<longrightarrow>
           map_of (values_map (engine_heap s ! e)) ?v = Some r
             \<and> chain (fold_heap s) None (Some r) (xs @ [f])"
    using app by (simp only: heap_s)
  have root': "map_of (values_map (engine_heap st ! e)) ?v = None \<longrightarrow>
           map_of (values_map (engine_heap s ! e)) ?v = Some f
             \<and> chain (fold_heap s) None (Some f) [f]"
    using root by (simp only: heap_s)
  show ?thesis
  proof (intro exI [of _ s] conjI)
    show "\<forall>e' v'. on_chain s e' v' f \<longrightarrow> e' = e \<and> v' = ?v"
      using uniq by blast
    show "\<forall>p. ensureEngine p f s = Some (Return f s)"
      using again by blast
  qed (fact res gone rs on' app' root' log)+
qed

lemma ensureEngine_resolved:
  "g < length (fold_heap st) \<Longrightarrow> engine (fold_heap st ! g) \<noteq> None \<Longrightarrow>
     ensureEngine p g st = Some (Return g st)"
  by (simp add: ensureEngine_def)

lemma ensureEngine_unknown:
  "g < length (fold_heap st) \<Longrightarrow> engine (fold_heap st ! g) = None \<Longrightarrow>
     p = nilPtr \<or> map_of (engines st) p = None \<Longrightarrow>
     ensureEngine p g st = Some (Panicked (Panic
       (if p = nilPtr then ''accessing value without an engine pointer; who created the value?''
        else ''unknown engine pointer; who created the engine?'')) st)"
  by (auto simp: ensureEngine_def)

lemma ensureEngine_not_pending:
  assumes ok: "registry_ok st" and g: "g < length (fold_heap st)"
    and un: "engine (fold_heap st ! g) = None"
    and hash: "gv_hashable (gvalue (fold_heap st ! g))"
    and np: "g \<notin> set (typeNew st)"
    and ep: "p \<noteq> nilPtr" and reg: "map_of (engines st) p = Some e"
  shows "\<exists>s. ensureEngine p g st = Some (Panicked (Panic
    ''value had no engine, but was not created by a registered type; who created the value?'') s)"
proof -
  from ok have cok: "chains_ok st" by (simp add: registry_ok_def)
  from reg have "(p, e) \<in> set (engines st)" by (rule map_of_SomeD)
  with cok have e: "e < length (engine_heap st)"
    by (fastforce simp: chains_ok_def)
  have "\<exists>st2. link_fold e g st = Some (Inr st2)"
  proof (cases "map_of (values_map (engine_heap st ! e)) (gvalue (fold_heap st ! g))")
    case None
    from link_fold_root [OF e g hash None] show ?thesis by blast
  next
    case (Some r)
    then have "(gvalue (fold_heap st ! g), r) \<in> set (values_map (engine_heap st ! e))"
      by (rule map_of_SomeD)
    with cok e obtain xs where "chain (fold_heap st) None (Some r) xs"
      unfolding chains_ok_def by fastforce
    from link_fold_tail [OF e g hash Some this] show ?thesis by blast
  qed
  then obtain st2 where l: "link_fold e g st = Some (Inr st2)" by blast
  from link_fold_typeNew [OF l] np have "length (removeAll g (typeNew st2)) = length (typeNew st2)"
    by simp
  with g un ep reg l show ?thesis
    by (simp add: ensureEngine_def)
qed

text \<open>
  C3. A fold that hookGoValueTypeNew creates is in \<open>typeNew\<close> and has no engine; it stays
  in \<open>typeNew\<close> through every sequence of operations that does not resolve or destroy it.
  In a well-formed registry, its first resolve with the pointer of a registered engine
  returns, takes it out of \<open>typeNew\<close>, keeps the registry well-formed, puts it on the chain
  of that engine for its value (behind the folds already there, or as the root) and on the
  chain of no other engine or value, and calls its initializer once, with the value and
  the handle. A resolve of a fold that has an engine returns with the state unchanged. A
  resolve of a fold without engine panics when the engine pointer is nil or not registered,
  and when the fold is not in \<open>typeNew\<close>.
\<close>

theorem pending_resolution:
  "(hookGoValueTypeNew a cv spec st = Return f s1 \<longrightarrow>
      f \<in> set (typeNew s1) \<and> engine (fold_heap s1 ! f) = None
      \<and> (registry_ok st \<longrightarrow> registry_ok s1))
   \<and> (f \<in> set (typeNew st) \<and> (\<forall>x\<in>set ops. \<not> concerns f x) \<and> run ops st = Some s2 \<longrightarrow>
      f \<in> set (typeNew s2))
   \<and> (registry_ok st \<and> f \<in> set (typeNew st) \<and> enginep \<noteq> nilPtr
        \<and> map_of (engines st) enginep = Some e \<longrightarrow>
      (\<exists>s. ensureEngine enginep f st = Some (Return f s)
         \<and> f \<notin> set (typeNew s) \<and> registry_ok s
         \<and> on_chain s e (gvalue (fold_heap st ! f)) f
         \<and> (\<forall>e' v'. on_chain s e' v' f \<longrightarrow> e' = e \<and> v' = gvalue (fold_heap st ! f))
         \<and> (\<forall>r xs. map_of (values_map (engine_heap st ! e)) (gvalue (fold_heap st ! f)) = Some r
                \<and> chain (fold_heap st) None (Some r) xs \<longrightarrow>
              map_of (values_map (engine_heap s ! e)) (gvalue (fold_heap st ! f)) = Some r
                \<and> chain (fold_heap s) None (Some r) (xs @ [f]))
         \<and> (map_of (values_map (engine_heap st ! e)) (gvalue (fold_heap st ! f)) = None \<longrightarrow>
              map_of (values_map (engine_heap s ! e)) (gvalue (fold_heap st ! f)) = Some f
                \<and> chain (fold_heap s) None (Some f) [f])
         \<and> calls s = calls st @ [InitCall (the (init (fold_heap st ! f)))
               (gvalue (fold_heap st ! f)) e (cvalue (fold_heap st ! f))]
         \<and> (\<forall>p. ensureEngine p f s = Some (Return f s))))
   \<and> (f < length (fold_heap st) \<and> engine (fold_heap st ! f) \<noteq> None \<longrightarrow>
      ensureEngine enginep f st = Some (Return f st))
   \<and> (f < length (fold_heap st) \<and> engine (fold_heap st ! f) = None
        \<and> (enginep = nilPtr \<or> map_of (engines st) enginep = None) \<longrightarrow>
      ensureEngine enginep f st = Some (Panicked (Panic
        (if enginep = nilPtr
         then ''accessing value without an engine pointer; who created the value?''
         else ''unknown engine pointer; who created the engine?'')) st))
   \<and> (registry_ok st \<and> f < length (fold_heap st) \<and> engine (fold_heap st ! f) = None
        \<and> gv_hashable (gvalue (fold_heap st ! f)) \<and> f \<notin> set (typeNew st)
        \<and> enginep \<noteq> nilPtr \<and> map_of (engines st) enginep = Some e \<longrightarrow>
      (\<exists>s. ensureEngine enginep f st = Some (Panicked (Panic
        ''value had no engine, but was not created by a registered type; who created the value?'')
        s)))"
proof (intro conjI impI)
  assume new: "hookGoValueTypeNew a cv spec st = Return f s1"
  from hookGoValueTypeNew_typeNew(2,4) [OF new]
  show "f \<in> set (typeNew s1)" and "engine (fold_heap s1 ! f) = None"
    by simp_all
  show "registry_ok s1" if "registry_ok st"
    using that new by (rule registry_ok_TypeNew)
next
  assume "f \<in> set (typeNew st) \<and> (\<forall>x\<in>set ops. \<not> concerns f x) \<and> run ops st = Some s2"
  then show "f \<in> set (typeNew s2)"
    using run_keeps_pending [of f st ops s2] by blast
next
  assume "registry_ok st \<and> f \<in> set (typeNew st) \<and> enginep \<noteq> nilPtr
        \<and> map_of (engines st) enginep = Some e"
  then have "registry_ok st" "f \<in> set (typeNew st)" "enginep \<noteq> nilPtr"
      "map_of (engines st) enginep = Some e"
    by simp_all
  then show "\<exists>s. ensureEngine enginep f st = Some (Return f s)
         \<and> f \<notin> set (typeNew s) \<and> registry_ok s
         \<and> on_chain s e (gvalue (fold_heap st ! f)) f
         \<and> (\<forall>e' v'. on_chain s e' v' f \<longrightarrow> e' = e \<and> v' = gvalue (fold_heap st ! f))
         \<and> (\<forall>r xs. map_of (values_map (engine_heap st ! e)) (gvalue (fold_heap st ! f)) = Some r
                \<and> chain (fold_heap st) None (Some r) xs \<longrightarrow>
              map_of (values_map (engine_heap s ! e)) (gvalue (fold_heap st ! f)) = Some r
                \<and> chain (fold_heap s) None (Some r) (xs @ [f]))
         \<and> (map_of (values_map (engine_heap st ! e)) (gvalue (fold_heap st ! f)) = None \<longrightarrow>
              map_of (values_map (engine_heap s ! e)) (gvalue (fold_heap st ! f)) = Some f
                \<and> chain (fold_heap s) None (Some f) [f])
         \<and> calls s = calls st @ [InitCall (the (init (fold_heap st ! f)))
               (gvalue (fold_heap st ! f)) e (cvalue (fold_heap st ! f))]
         \<and> (\<forall>p. ensureEngine p f s = Some (Return f s))"
    by (rule ensureEngine_first)
next
  assume "f < length (fold_heap st) \<and> engine (fold_heap st ! f) \<noteq> None"
  then show "ensureEngine enginep f st = Some (Return f st)"
    using ensureEngine_resolved by blast
next
  assume "f < length (fold_heap st) \<and> engine (fold_heap st ! f) = None
        \<and> (enginep = nilPtr \<or> map_of (engines st) enginep = None)"
  then show "ensureEngine enginep f st = Some (Panicked (Panic
        (if enginep = nilPtr
         then ''accessing value without an engine pointer; who created the value?''
         else ''unknown engine pointer; who created the engine?'')) st)"
    using ensureEngine_unknown [of f st enginep] by blast
next
  assume "registry_ok st \<and> f < length (fold_heap st) \<and> engine (fold_heap st ! f) = None
        \<and> gv_hashable (gvalue (fold_heap st ! f)) \<and> f \<notin> set (typeNew st)
        \<and> enginep \<noteq> nilPtr \<and> map_of (engines st) enginep = Some e"
  then show "\<exists>s. ensureEngine enginep f st = Some (Panicked (Panic
        ''value had no engine, but was not created by a registered type; who created the value?'')
        s)"
    using ensureEngine_not_pending [of st f enginep e] by blast
qed

lemma ex_two_ok: "registry_ok ex_two"
proof -
  have "chains_ok ex_two"
    unfolding chains_ok_def
  proof (intro conjI allI impI ballI)
    fix ae assume "ae \<in> set (engines ex_two)"
    then show "snd ae < length (engine_heap ex_two)"
      by (auto simp: ex_two_def)
  next
    fix e assume "e < length (engine_heap ex_two)"
    then have "e = 0 \<or> e = 1" by (auto simp: ex_two_def)
    then show "distinct (map fst (values_map (engine_heap ex_two ! e)))"
      by (auto simp: ex_two_def)
  next
    fix e vr
    assume "e < length (engine_heap ex_two)" "vr \<in> set (values_map (engine_heap ex_two ! e))"
    then have "e = 0 \<and> vr = (ex_ptr, 0) \<or> e = 1 \<and> vr = (ex_ptr, 1)"
      by (auto simp: ex_two_def less_Suc_eq)
    then show "\<exists>xs. chain (fold_heap ex_two) None (Some (snd vr)) xs
        \<and> (\<forall>a\<in>set xs. engine (fold_heap ex_two ! a) = Some e
               \<and> gvalue (fold_heap ex_two ! a) = fst vr)"
    proof
      assume "e = 0 \<and> vr = (ex_ptr, 0)"
      then show ?thesis by (intro exI [of _ "[0]"]) (simp add: ex_two_def)
    next
      assume "e = 1 \<and> vr = (ex_ptr, 1)"
      then show ?thesis by (intro exI [of _ "[1]"]) (simp add: ex_two_def)
    qed
  qed
  moreover have "pending_ok ex_two"
    by (simp add: pending_ok_def ex_two_def ex_ptr_guards)
  ultimately show ?thesis by (simp add: registry_ok_def)
qed

theorem pending_resolution_witness:
  "(\<exists>s1. hookGoValueTypeNew 77 403 ex_spec ex_two = Return 3 s1
        \<and> 3 \<in> set (typeNew s1) \<and> engine (fold_heap s1 ! 3) = None \<and> registry_ok s1)
   \<and> (\<exists>s2. run [Wrap 1 500 0 ex_ptr jsOwner, Resolve 100 0] ex_two = Some s2
        \<and> 2 \<in> set (typeNew s2))
   \<and> (\<exists>s. ensureEngine 100 2 ex_two = Some (Return 2 s)
        \<and> 2 \<notin> set (typeNew s) \<and> registry_ok s
        \<and> on_chain s 0 ex_ptr 2 \<and> \<not> on_chain s 1 ex_ptr 2
        \<and> chain (fold_heap s) None (Some 0) [0, 2]
        \<and> calls s = [InitCall 9 ex_ptr 0 402]
        \<and> ensureEngine 200 2 s = Some (Return 2 s))
   \<and> ensureEngine 0 0 ex_two = Some (Return 0 ex_two)
   \<and> ensureEngine 300 2 ex_two = Some (Panicked (Panic
        ''unknown engine pointer; who created the engine?'') ex_two)
   \<and> (\<exists>s. ensureEngine 100 2 (ex_two\<lparr>typeNew := []\<rparr>) = Some (Panicked (Panic
        ''value had no engine, but was not created by a registered type; who created the value?'')
        s))"
proof -
  have two: "fold_heap ex_two ! 2 = \<lparr>engine = None, gvalue = ex_ptr, cvalue = 402, init = Some 9,
      prev = None, next_fold = None, owner = jsOwner\<rparr>"
    "length (fold_heap ex_two) = 3" "typeNew ex_two = [2]" "calls ex_two = []"
    "map_of (engines ex_two) 100 = Some 0" "map_of (engines ex_two) 300 = None"
    "engine (fold_heap ex_two ! 0) = Some 0"
    "map_of (values_map (engine_heap ex_two ! 0)) ex_ptr = Some 0"
    "chain (fold_heap ex_two) None (Some 0) [0]"
    by (simp_all add: ex_two_def)
  have nil: "(100::nat) \<noteq> nilPtr" "(300::nat) \<noteq> nilPtr"
    by (simp_all add: nilPtr_def)
  have "\<exists>s1. hookGoValueTypeNew 77 403 ex_spec ex_two = Return 3 s1"
    by (simp add: hookGoValueTypeNew_def ex_spec_def Let_def two(2))
  then obtain s1 where n: "hookGoValueTypeNew 77 403 ex_spec ex_two = Return 3 s1"
    by blast
  from pending_resolution [where a = 77 and cv = 403 and spec = ex_spec and st = ex_two
      and f = 3 and ?s1.0 = s1] n ex_two_ok
  have c1: "3 \<in> set (typeNew s1) \<and> engine (fold_heap s1 ! 3) = None \<and> registry_ok s1"
    by blast
  have r: "run [Wrap 1 500 0 ex_ptr jsOwner, Resolve 100 0] ex_two = Some ex_two"
    by (simp add: wrapGoValue_def ensureEngine_def Let_def ex_ptr_guards ex_two_def
        jsOwner_def cppOwner_def)
  have nc: "\<forall>x\<in>set [Wrap 1 500 0 ex_ptr jsOwner, Resolve 100 0]. \<not> concerns 2 x"
    by simp
  from pending_resolution [where st = ex_two and f = 2 and ?s2.0 = ex_two
      and ops = "[Wrap 1 500 0 ex_ptr jsOwner, Resolve 100 0]"] r nc two(3)
  have c2: "2 \<in> set (typeNew ex_two)"
    by simp
  have hyp: "registry_ok ex_two \<and> 2 \<in> set (typeNew ex_two) \<and> 100 \<noteq> nilPtr
      \<and> map_of (engines ex_two) 100 = Some 0"
    using ex_two_ok two(3,5) nil(1) by simp
  from pending_resolution [where st = ex_two and f = 2 and enginep = 100 and e = 0,
      THEN conjunct2, THEN conjunct2, THEN conjunct1, THEN mp, OF hyp]
  obtain s where s: "ensureEngine 100 2 ex_two = Some (Return 2 s)"
    and s1: "2 \<notin> set (typeNew s)" "registry_ok s"
      "on_chain s 0 (gvalue (fold_heap ex_two ! 2)) 2"
    and s2: "\<forall>e' v'. on_chain s e' v' 2 \<longrightarrow> e' = 0 \<and> v' = gvalue (fold_heap ex_two ! 2)"
    and s3a: "map_of (values_map (engine_heap ex_two ! 0)) (gvalue (fold_heap ex_two ! 2)) = None
        \<longrightarrow> map_of (values_map (engine_heap s ! 0)) (gvalue (fold_heap ex_two ! 2)) = Some 2
                \<and> chain (fold_heap s) None (Some 2) [2]"
    and s3: "\<forall>r xs. map_of (values_map (engine_heap ex_two ! 0)) (gvalue (fold_heap ex_two ! 2))
                = Some r \<and> chain (fold_heap ex_two) None (Some r) xs \<longrightarrow>
              map_of (values_map (engine_heap s ! 0)) (gvalue (fold_heap ex_two ! 2)) = Some r
                \<and> chain (fold_heap s) None (Some r) (xs @ [2])"
    and s4: "calls s = calls ex_two @ [InitCall (the (init (fold_heap ex_two ! 2)))
               (gvalue (fold_heap ex_two ! 2)) 0 (cvalue (fold_heap ex_two ! 2))]"
    and s5: "\<forall>p. ensureEngine p 2 s = Some (Return 2 s)"
    by (elim exE conjE) (rule that; assumption)
  from s2 have s2': "\<not> on_chain s 1 ex_ptr 2"
    by auto
  from s3 two(1,8,9) have s3': "chain (fold_heap s) None (Some 0) ([0] @ [2])"
    by (metis valueFold.select_convs(2))
  from pending_resolution [where st = ex_two and f = 0 and enginep = 0] two(2,7)
  have c4: "ensureEngine 0 0 ex_two = Some (Return 0 ex_two)"
    by simp
  from pending_resolution [where st = ex_two and f = 2 and enginep = 300] two(1,2,6) nil(2)
  have c5: "ensureEngine 300 2 ex_two = Some (Panicked (Panic
        ''unknown engine pointer; who created the engine?'') ex_two)"
    by simp
  have ok': "registry_ok (ex_two\<lparr>typeNew := []\<rparr>)"
    using ex_two_ok chains_ok_cong [of "ex_two\<lparr>typeNew := []\<rparr>" ex_two]
    by (simp add: registry_ok_def pending_ok_def)
  from pending_resolution [where st = "ex_two\<lparr>typeNew := []\<rparr>" and f = 2 and enginep = 100
      and e = 0] ok' two nil(1) ex_ptr_guards(1)
  have c6: "\<exists>s. ensureEngine 100 2 (ex_two\<lparr>typeNew := []\<rparr>) = Some (Panicked (Panic
        ''value had no engine, but was not created by a registered type; who created the value?'')
        s)"
    by simp
  from s s1 s2' s3' s4 s5 two(1,4)
  have c3: "\<exists>s. ensureEngine 100 2 ex_two = Some (Return 2 s)
        \<and> 2 \<notin> set (typeNew s) \<and> registry_ok s
        \<and> on_chain s 0 ex_ptr 2 \<and> \<not> on_chain s 1 ex_ptr 2
        \<and> chain (fold_heap s) None (Some 0) [0, 2]
        \<and> calls s = [InitCall 9 ex_ptr 0 402]
        \<and> ensureEngine 200 2 s = Some (Return 2 s)"
    by (intro exI [of _ s]) simp
  from n c1 r c2 c3 c4 c5 c6 show ?thesis
    by (intro conjI) auto
qed

section \<open>The dispatcher's contract\<close>





section \<open>Change propagation after two native-owned wraps\<close>

lemma ex_stray_run: "run ex_stray_ops ex_pair = Some ex_stray"
  by (simp add: ex_stray_ops_def ex_pair_def ex_stray_def wrapGoValue_def
      hookGoValueDestroyed_def Let_def ex_ptr_guards owners_differ nilPtr_def AList.delete_eq)

lemma ex_stray_changed:
  "Changed 1 (\<lambda>k. []) ex_ptr (MPtr (MObj (Some 1000) 24)) (MPtr (MObj (Some 1008) 8)) ex_stray
     = Some (Return () (ex_stray\<lparr>calls := calls ex_stray @ [GoValueActivate 403 ex_ptr 8]\<rparr>))"
proof -
  have a: "activate_chain (fold_heap ex_stray) ex_ptr 8 None [] = Some (None, [])"
    by (subst activate_chain.simps) simp
  have b: "activate_chain (fold_heap ex_stray) ex_ptr 8 (Some 3) []
      = Some (None, [GoValueActivate 403 ex_ptr 8])"
    by (subst activate_chain.simps, subst activate_chain.simps)
      (simp add: ex_stray_def activate_def)
  have c: "changed_loop (engine_heap ex_stray) (fold_heap ex_stray) (\<lambda>k. []) ex_ptr 8 0
      (engines ex_stray) [] [] = Some (None, [GoValueActivate 403 ex_ptr 8], [])"
    using a b by (simp add: ex_stray_def ex_ptr_guards)
  then have "changed_body (\<lambda>k. []) ex_ptr 8 1 ex_stray
      = Some (Return () (ex_stray\<lparr>calls := calls ex_stray @ [GoValueActivate 403 ex_ptr 8]\<rparr>))"
    by (simp add: changed_body_def)
  moreover have "guiLoopRef ex_stray = 1"
    by (simp add: ex_stray_def)
  ultimately show ?thesis
    by (simp add: Changed_def gui_def Let_def)
qed

text \<open>
  C4, on the code. Engine 0 gets a script-owned and two native-owned folds of one value,
  of which the first and the third are destroyed; engine 1 gets one fold of the value.
  The value then has two live folds with an engine, one in each of the two registered
  engines, and no pending fold, but the second fold of engine 0 is on no chain (wrapGoValue
  linked the third fold behind the root in its place), and Changed emits one signal, for
  the fold of engine 1. For a field of pointer type the loop over \<open>Elem()\<close> runs on to
  what the field points to, and Changed panics.
\<close>

theorem Changed_misses_stray_fold:
  "run ex_stray_ops ex_pair = Some ex_stray
   \<and> map_of (engines ex_stray) 100 = Some 0 \<and> map_of (engines ex_stray) 200 = Some 1
   \<and> engine (fold_heap ex_stray ! 1) = Some 0 \<and> gvalue (fold_heap ex_stray ! 1) = ex_ptr
   \<and> engine (fold_heap ex_stray ! 3) = Some 1 \<and> gvalue (fold_heap ex_stray ! 3) = ex_ptr
   \<and> valuesAlive ex_stray = 2 \<and> typeNew ex_stray = []
   \<and> Changed 1 (\<lambda>k. []) ex_ptr (MPtr (MObj (Some 1000) 24)) (MPtr (MObj (Some 1008) 8)) ex_stray
       = Some (Return () (ex_stray\<lparr>calls := calls ex_stray @ [GoValueActivate 403 ex_ptr 8]\<rparr>))
   \<and> Changed 1 (\<lambda>k. []) ex_ptr (MPtr (MObj (Some 1000) 24))
         (MPtr (MPtr (MObj (Some 5000) 8))) ex_stray
       = Some (Panicked (Panic ''provided field is not a member of the given value'') ex_stray)"
proof -
  have "Changed 1 (\<lambda>k. []) ex_ptr (MPtr (MObj (Some 1000) 24))
         (MPtr (MPtr (MObj (Some 5000) 8))) ex_stray
       = Some (Panicked (Panic ''provided field is not a member of the given value'') ex_stray)"
    by (simp add: Changed_def Let_def)
  with ex_stray_run ex_stray_changed show ?thesis
    by (simp add: ex_stray_def)
qed

theorem Changed_misses_stray_fold_witness:
  "\<exists>st s. run ex_stray_ops ex_pair = Some st
     \<and> Changed 1 (\<lambda>k. []) ex_ptr (MPtr (MObj (Some 1000) 24)) (MPtr (MObj (Some 1008) 8)) st
         = Some (Return () s)
     \<and> length (calls s) = Suc (length (calls st))"
proof -
  have "length (calls (ex_stray\<lparr>calls := calls ex_stray @ [GoValueActivate 403 ex_ptr 8]\<rparr>))
      = Suc (length (calls ex_stray))"
    by simp
  with Changed_misses_stray_fold show ?thesis by blast
qed


end
